theory Spec2Isabelle
  imports Main "HOL-Library.Multiset" "HOL-Library.Sublist"
begin

section \<open>Path strings\<close>

text \<open>
  The script builds its paths with \<^verbatim>\<open>os.path.join\<close> on strings.  On POSIX,
  \<^verbatim>\<open>join(a, b)\<close> is \<^verbatim>\<open>b\<close> when \<^verbatim>\<open>b\<close> starts with a slash, \<^verbatim>\<open>a + b\<close> when
  \<^verbatim>\<open>a\<close> is empty or ends with a slash, and \<^verbatim>\<open>a + "/" + b\<close> otherwise.
\<close>

definition os_path_join :: "string \<Rightarrow> string \<Rightarrow> string" where
  "os_path_join a b =
     (if b \<noteq> [] \<and> hd b = CHR ''/'' then b
      else if a = [] \<or> last a = CHR ''/'' then a @ b
      else a @ ''/'' @ b)"

text \<open>
  A path string names a filesystem object through its components.  \<open>split_sep\<close> cuts a
  string at every slash; \<open>resolve\<close> drops the empty components and the components
  \<^verbatim>\<open>.\<close>, which leaves the list of names to walk down from the current working
  directory.  Absolute paths, \<^verbatim>\<open>..\<close> and symbolic links are outside this model: the
  script never builds one.
\<close>

type_synonym path = "string list"

fun split_sep :: "string \<Rightarrow> string list" where
  "split_sep [] = [[]]"
| "split_sep (c # cs) =
     (if c = CHR ''/'' then [] # split_sep cs
      else (case split_sep cs of [] \<Rightarrow> [[c]] | x # xs \<Rightarrow> (c # x) # xs))"

definition resolve :: "string \<Rightarrow> path" where
  "resolve name = filter (\<lambda>c. c \<noteq> [] \<and> c \<noteq> ''.'') (split_sep name)"

section \<open>The filesystem below the working directory\<close>

text \<open>
  A filesystem object is a regular file with its content or a directory; a directory
  carries whether the process may create entries in it.  The state maps the paths below
  the working directory (the empty path is the working directory itself) to the objects
  there, and counts how many more objects the storage can take.  It also carries what
  the process umask decides for a directory the process makes: whether the process may
  create entries in it.  The script never sets the umask, so no call changes that.
\<close>

datatype node = File string | Dir bool

record fs =
  nodes :: "path \<rightharpoonup> node"
  free :: nat
  new_dir_writable :: bool

datatype error =
    FileExistsError
  | FileNotFoundError
  | NotADirectoryError
  | IsADirectoryError
  | PermissionError
  | NoSpaceError

text \<open>
  A call of the operating system returns the exception it raised, if any, and the state
  it left.
\<close>

type_synonym outcome = "error option \<times> fs"

definition path_exists :: "path \<Rightarrow> fs \<Rightarrow> bool" where
  "path_exists p s = (nodes s p \<noteq> None)"

text \<open>\<^verbatim>\<open>os.path.exists\<close>: true for an object of any kind.\<close>

definition os_path_exists :: "string \<Rightarrow> fs \<Rightarrow> bool" where
  "os_path_exists name s = path_exists (resolve name) s"

text \<open>
  \<^verbatim>\<open>os.mkdir\<close>: the parent must be a directory the process may write to, the path
  itself must be free, and the storage must have room.  The new directory has the mode
  \<^verbatim>\<open>0o777\<close> less the umask: it is writable as \<open>new_dir_writable\<close> says.  A failing
  call changes nothing.
\<close>

definition mkdir :: "path \<Rightarrow> fs \<Rightarrow> outcome" where
  "mkdir p s =
     (if p = [] then
        (if path_exists [] s then (Some FileExistsError, s) else (Some FileNotFoundError, s))
      else
        (case nodes s (butlast p) of
           None \<Rightarrow> (Some FileNotFoundError, s)
         | Some (File c) \<Rightarrow> (Some NotADirectoryError, s)
         | Some (Dir w) \<Rightarrow>
             if path_exists p s then (Some FileExistsError, s)
             else if \<not> w then (Some PermissionError, s)
             else if free s = 0 then (Some NoSpaceError, s)
             else (None, s\<lparr>nodes := (nodes s)(p \<mapsto> Dir (new_dir_writable s)),
                            free := free s - 1\<rparr>)))"

text \<open>
  \<^verbatim>\<open>os.makedirs(name)\<close> with \<^verbatim>\<open>exist_ok=False\<close>, as the standard library
  writes it: when the parent does not exist it is made first, recursively, a
  \<^verbatim>\<open>FileExistsError\<close> of that inner call is swallowed, and then the directory itself
  is made with \<^verbatim>\<open>mkdir\<close>.  Directories made before a failing step stay.
\<close>

function makedirs :: "path \<Rightarrow> fs \<Rightarrow> outcome" where
  "makedirs p s =
     (if p \<noteq> [] \<and> \<not> path_exists (butlast p) s then
        (case makedirs (butlast p) s of
           (None, s') \<Rightarrow> mkdir p s'
         | (Some FileExistsError, s') \<Rightarrow> mkdir p s'
         | (Some e, s') \<Rightarrow> (Some e, s'))
      else mkdir p s)"
  by pat_completeness auto
termination
  by (relation "measure (\<lambda>(p, s). length p)") auto

declare makedirs.simps [simp del]

definition os_makedirs :: "string \<Rightarrow> fs \<Rightarrow> outcome" where
  "os_makedirs name s = makedirs (resolve name) s"

text \<open>
  \<^verbatim>\<open>with open(file_path, 'w') as f: pass\<close>: opening for writing creates a missing
  file empty and truncates an existing one; nothing is written before the file is
  closed.
\<close>

definition open_w_path :: "path \<Rightarrow> fs \<Rightarrow> outcome" where
  "open_w_path p s =
     (if p = [] then
        (if path_exists [] s then (Some IsADirectoryError, s) else (Some FileNotFoundError, s))
      else
        (case nodes s (butlast p) of
           None \<Rightarrow> (Some FileNotFoundError, s)
         | Some (File c) \<Rightarrow> (Some NotADirectoryError, s)
         | Some (Dir w) \<Rightarrow>
             (case nodes s p of
                Some (Dir w') \<Rightarrow> (Some IsADirectoryError, s)
              | Some (File c) \<Rightarrow> (None, s\<lparr>nodes := (nodes s)(p \<mapsto> File [])\<rparr>)
              | None \<Rightarrow>
                  if \<not> w then (Some PermissionError, s)
                  else if free s = 0 then (Some NoSpaceError, s)
                  else (None, s\<lparr>nodes := (nodes s)(p \<mapsto> File []), free := free s - 1\<rparr>))))"

definition open_w :: "string \<Rightarrow> fs \<Rightarrow> outcome" where
  "open_w name s = open_w_path (resolve name) s"

section \<open>The script\<close>

text \<open>The base directory is the constant \<^verbatim>\<open>"."\<close>.\<close>

definition base_dir :: string where
  "base_dir = ''.''"

text \<open>
  The table of directories and their files.  A Python dictionary keeps its keys in the
  order of insertion, and \<^verbatim>\<open>items()\<close> walks them in that order.
\<close>

definition directories :: "(string \<times> string list) list" where
  "directories =
     [(''public/fonts'', []),
      (''public/icons'', []),
      (''public/presets'', []),
      (''app/api/export'', [''route.ts'']),
      (''app/api/presets'', [''route.ts'']),
      (''components/ui'',
         [''Button.tsx'', ''Slider.tsx'', ''Knob.tsx'', ''Switch.tsx'',
          ''Card.tsx'', ''Modal.tsx'', ''Tabs.tsx'', ''Dropdown.tsx'', ''Tooltip.tsx'']),
      (''components/layout'', [''Header.tsx'', ''Footer.tsx'', ''Sidebar.tsx'']),
      (''components/audio'',
         [''SoundGrid.tsx'', ''SoundCard.tsx'', ''Timeline.tsx'', ''Track.tsx'',
          ''TrackControls.tsx'', ''TimelineControls.tsx'', ''Waveform.tsx'', ''Spectrum.tsx'']),
      (''components/modals'', [''SoundEditor.tsx'', ''ExportModal.tsx'', ''PresetModal.tsx'']),
      (''components/controls'',
         [''VolumeControl.tsx'', ''PanControl.tsx'', ''PitchControl.tsx'',
          ''FilterControls.tsx'', ''EnvelopeControls.tsx'', ''LFOControls.tsx'',
          ''EffectsControls.tsx'', ''EQControls.tsx'', ''DynamicsControls.tsx'',
          ''SpatialControls.tsx'']),
      (''lib/audio'',
         [''audioContext.ts'', ''generators.ts'', ''processors.ts'', ''effects.ts'',
          ''exporters.ts'']),
      (''lib/hooks'', [''useAudioNode.ts'', ''useTimeline.ts'', ''usePresets.ts'', ''useDragResize.ts'']),
      (''lib/utils'', [''animations.ts'', ''storage.ts'', ''format.ts'']),
      (''types'', [''audio.ts'', ''preset.ts'', ''ui.ts'']),
      (''store'', [''index.ts'']),
      (''store/slices'', [''timelineSlice.ts'', ''soundsSlice.ts'', ''uiSlice.ts''])]"

text \<open>
  A run returns the exception that ended it, if any, the filesystem it left and the
  lines it printed on standard output.
\<close>

type_synonym run = "error option \<times> fs \<times> string list"

text \<open>
  The inner loop, \<^verbatim>\<open>for file in files\<close>: a file that does not exist is opened for
  writing and closed, and a line is printed; an exception ends the run.
\<close>

fun create_files :: "string \<Rightarrow> string \<Rightarrow> string list \<Rightarrow> fs \<Rightarrow> run" where
  "create_files directory full_dir_path [] s = (None, s, [])"
| "create_files directory full_dir_path (file # files) s =
     (let file_path = os_path_join full_dir_path file in
      if \<not> os_path_exists file_path s then
        (case open_w file_path s of
           (Some e, s') \<Rightarrow> (Some e, s', [])
         | (None, s') \<Rightarrow>
             (case create_files directory full_dir_path files s' of
                (r, s'', out) \<Rightarrow>
                  (r, s'', (''Created file: '' @ directory @ ''/'' @ file) # out)))
      else create_files directory full_dir_path files s)"

text \<open>The body of the outer loop for one item of the table.\<close>

definition create_entry :: "string \<times> string list \<Rightarrow> fs \<Rightarrow> run" where
  "create_entry entry s =
     (case entry of (directory, files) \<Rightarrow>
        (let full_dir_path = os_path_join base_dir directory in
         if \<not> os_path_exists full_dir_path s then
           (case os_makedirs full_dir_path s of
              (Some e, s') \<Rightarrow> (Some e, s', [])
            | (None, s') \<Rightarrow>
                (case create_files directory full_dir_path files s' of
                   (r, s'', out) \<Rightarrow> (r, s'', (''Created directory: '' @ directory) # out)))
         else create_files directory full_dir_path files s))"

text \<open>The outer loop, \<^verbatim>\<open>for directory, files in directories.items()\<close>.\<close>

fun walk :: "(string \<times> string list) list \<Rightarrow> fs \<Rightarrow> run" where
  "walk [] s = (None, s, [])"
| "walk (entry # entries) s =
     (case create_entry entry s of
        (Some e, s', out) \<Rightarrow> (Some e, s', out)
      | (None, s', out) \<Rightarrow>
          (case walk entries s' of (r, s'', out') \<Rightarrow> (r, s'', out @ out')))"

definition create_structure :: "fs \<Rightarrow> run" where
  "create_structure s =
     (case walk directories s of
        (Some e, s', out) \<Rightarrow> (Some e, s', out)
      | (None, s', out) \<Rightarrow> (None, s', out @ [''Successfully extended project structure.'']))"

text \<open>
  The process: \<^verbatim>\<open>if __name__ == "__main__": create_structure()\<close>.  The command line
  is never read.  An exception that nothing catches is reported on standard error and
  the interpreter exits with status 1; otherwise the status is 0.
\<close>

record process_result =
  exit_code :: nat
  final_fs :: fs
  stdout :: "string list"
  stderr :: "error list"

definition main :: "string list \<Rightarrow> fs \<Rightarrow> process_result" where
  "main argv s =
     (case create_structure s of
        (None, s', out) \<Rightarrow> \<lparr>exit_code = 0, final_fs = s', stdout = out, stderr = []\<rparr>
      | (Some e, s', out) \<Rightarrow> \<lparr>exit_code = 1, final_fs = s', stdout = out, stderr = [e]\<rparr>)"


section \<open>Paths the script touches, and how a state grows\<close>

text \<open>
  The object named by the directory string of a table item, and the object named by one
  of its file strings, as the script builds the names.
\<close>

definition dir_target :: "string \<Rightarrow> path" where
  "dir_target directory = resolve (os_path_join base_dir directory)"

definition file_target :: "string \<Rightarrow> string \<Rightarrow> path" where
  "file_target directory file =
     resolve (os_path_join (os_path_join base_dir directory) file)"

text \<open>
  The directories an item may make are its directory path and the paths above it; the
  files it may make are its file paths.
\<close>

definition entry_dirs :: "string \<times> string list \<Rightarrow> path set" where
  "entry_dirs entry = set (prefixes (dir_target (fst entry)))"

definition entry_files :: "string \<times> string list \<Rightarrow> path set" where
  "entry_files entry = set (map (file_target (fst entry)) (snd entry))"

definition spec_dirs :: "(string \<times> string list) list \<Rightarrow> path set" where
  "spec_dirs entries = (\<Union>entry \<in> set entries. entry_dirs entry)"

definition spec_files :: "(string \<times> string list) list \<Rightarrow> path set" where
  "spec_files entries = (\<Union>entry \<in> set entries. entry_files entry)"

definition created :: "fs \<Rightarrow> fs \<Rightarrow> path set" where
  "created s s' = dom (nodes s') - dom (nodes s)"

text \<open>
  \<open>grows D F s s'\<close>: the state \<open>s'\<close> is \<open>s\<close> with finitely many objects added and
  nothing else changed.  Every added object is a directory at a path of \<open>D\<close>, with the
  mode of a new directory, or an empty file at a path of \<open>F\<close>; it sits in a writable
  directory and takes one unit of the storage.
\<close>

definition grows :: "path set \<Rightarrow> path set \<Rightarrow> fs \<Rightarrow> fs \<Rightarrow> bool" where
  "grows D F s s' \<longleftrightarrow>
     (\<forall>p n. nodes s p = Some n \<longrightarrow> nodes s' p = Some n) \<and>
     (\<forall>p n. nodes s p = None \<longrightarrow> nodes s' p = Some n \<longrightarrow>
        (p \<in> D \<and> n = Dir (new_dir_writable s)) \<or> (p \<in> F \<and> n = File [])) \<and>
     (\<forall>p. nodes s p = None \<longrightarrow> nodes s' p \<noteq> None \<longrightarrow>
        p \<noteq> [] \<and> nodes s' (butlast p) = Some (Dir True)) \<and>
     finite (created s s') \<and> free s' + card (created s s') = free s \<and>
     new_dir_writable s' = new_dir_writable s"

text \<open>
  A state is a tree when every object other than the working directory sits in a
  directory.
\<close>

definition tree :: "fs \<Rightarrow> bool" where
  "tree s \<longleftrightarrow> (\<forall>p. p \<noteq> [] \<longrightarrow> nodes s p \<noteq> None \<longrightarrow> (\<exists>w. nodes s (butlast p) = Some (Dir w)))"

text \<open>An item is complete in a state when its directory path and all its file paths exist.\<close>

definition entry_done :: "string \<times> string list \<Rightarrow> fs \<Rightarrow> bool" where
  "entry_done entry s \<longleftrightarrow>
     nodes s (dir_target (fst entry)) \<noteq> None \<and>
     (\<forall>f \<in> set (snd entry). nodes s (file_target (fst entry) f) \<noteq> None)"

text \<open>
  The file names of a table are plain when each names an object directly inside the
  directory of its item; files and directories of a table do not clash when no file path
  is a directory path of the table or a path above one.
\<close>

definition plain_names :: "(string \<times> string list) list \<Rightarrow> bool" where
  "plain_names entries \<longleftrightarrow>
     (\<forall>entry \<in> set entries. \<forall>f \<in> set (snd entry).
        file_target (fst entry) f = dir_target (fst entry) @ [f])"

definition no_clash :: "(string \<times> string list) list \<Rightarrow> bool" where
  "no_clash entries \<longleftrightarrow> spec_files entries \<inter> spec_dirs entries = {}"

text \<open>
  Two tables are the same up to order when one lists the items of the other in some
  order, each with its files in some order.
\<close>

definition same_table ::
  "(string \<times> string list) list \<Rightarrow> (string \<times> string list) list \<Rightarrow> bool" where
  "same_table entries entries' \<longleftrightarrow>
     mset (map (\<lambda>(directory, files). (directory, mset files)) entries') =
     mset (map (\<lambda>(directory, files). (directory, mset files)) entries)"

text \<open>An item fits a target state when all it would make is there, at paths of \<open>D\<close> and \<open>F\<close>.\<close>

definition fits :: "path set \<Rightarrow> path set \<Rightarrow> fs \<Rightarrow> string \<times> string list \<Rightarrow> bool" where
  "fits D F s1 entry \<longleftrightarrow>
     set (prefixes (dir_target (fst entry))) \<subseteq> D \<and>
     (\<forall>q. prefix q (dir_target (fst entry)) \<longrightarrow> nodes s1 q \<noteq> None) \<and>
     (\<forall>f \<in> set (snd entry).
        file_target (fst entry) f \<in> F \<and> nodes s1 (file_target (fst entry) f) \<noteq> None \<and>
        butlast (file_target (fst entry) f) = dir_target (fst entry))"

text \<open>
  The lines a run prints, read off the state before the run: for each item of the table
  in order, one line for its directory when that path does not exist, then one line for
  each of its files whose path does not exist.
\<close>

definition file_lines :: "fs \<Rightarrow> string \<Rightarrow> string list \<Rightarrow> string list" where
  "file_lines s directory files =
     map (\<lambda>file. ''Created file: '' @ directory @ ''/'' @ file)
       (filter (\<lambda>file. nodes s (file_target directory file) = None) files)"

definition entry_lines :: "fs \<Rightarrow> string \<times> string list \<Rightarrow> string list" where
  "entry_lines s entry =
     (if nodes s (dir_target (fst entry)) = None then [''Created directory: '' @ fst entry] else [])
     @ file_lines s (fst entry) (snd entry)"

definition expected_lines :: "fs \<Rightarrow> (string \<times> string list) list \<Rightarrow> string list" where
  "expected_lines s entries = concat (map (entry_lines s) entries)"

text \<open>
  A table is fresh when no path that an item tests has been made by an earlier step:
  the file paths of an item differ from each other and from the directories the item
  makes, and the paths of later items are not among those an earlier item makes.
\<close>

definition touched :: "string \<times> string list \<Rightarrow> path set" where
  "touched entry = entry_dirs entry \<union> entry_files entry"

fun fresh :: "(string \<times> string list) list \<Rightarrow> bool" where
  "fresh [] = True"
| "fresh (entry # entries) =
     (distinct (map (file_target (fst entry)) (snd entry)) \<and>
      (\<forall>f \<in> set (snd entry). file_target (fst entry) f \<notin> entry_dirs entry) \<and>
      (\<forall>later \<in> set entries.
         dir_target (fst later) \<notin> touched entry \<and>
         (\<forall>f \<in> set (snd later). file_target (fst later) f \<notin> touched entry)) \<and>
      fresh entries)"

text \<open>
  The lines of the objects a run has made, read off the states before and after it: for
  each item of the table in order, one line for its directory when that path was empty
  before and is not after, then one line for each of its files of which the same holds.
\<close>

definition made :: "fs \<Rightarrow> fs \<Rightarrow> path \<Rightarrow> bool" where
  "made s s' p \<longleftrightarrow> nodes s p = None \<and> nodes s' p \<noteq> None"

definition made_file_lines :: "fs \<Rightarrow> fs \<Rightarrow> string \<Rightarrow> string list \<Rightarrow> string list" where
  "made_file_lines s s' directory files =
     map (\<lambda>file. ''Created file: '' @ directory @ ''/'' @ file)
       (filter (\<lambda>file. made s s' (file_target directory file)) files)"

definition made_entry_lines :: "fs \<Rightarrow> fs \<Rightarrow> string \<times> string list \<Rightarrow> string list" where
  "made_entry_lines s s' entry =
     (if made s s' (dir_target (fst entry)) then [''Created directory: '' @ fst entry] else [])
     @ made_file_lines s s' (fst entry) (snd entry)"

definition made_lines :: "fs \<Rightarrow> fs \<Rightarrow> (string \<times> string list) list \<Rightarrow> string list" where
  "made_lines s s' entries = concat (map (made_entry_lines s s') entries)"

text \<open>
  The lines a walk prints for a table in any order, read off the state before the walk
  and the set of paths the items walked so far have made: a path gets its line when it
  is empty in the state and not among those paths.
\<close>

definition missing :: "fs \<Rightarrow> path set \<Rightarrow> path \<Rightarrow> bool" where
  "missing s seen p \<longleftrightarrow> nodes s p = None \<and> p \<notin> seen"

fun walked_files :: "fs \<Rightarrow> path set \<Rightarrow> string \<Rightarrow> string list \<Rightarrow> string list" where
  "walked_files s seen directory [] = []"
| "walked_files s seen directory (file # files) =
     (if missing s seen (file_target directory file)
      then [''Created file: '' @ directory @ ''/'' @ file] else [])
     @ walked_files s (insert (file_target directory file) seen) directory files"

fun walked_lines :: "fs \<Rightarrow> path set \<Rightarrow> (string \<times> string list) list \<Rightarrow> string list" where
  "walked_lines s seen [] = []"
| "walked_lines s seen (entry # entries) =
     (if missing s seen (dir_target (fst entry))
      then [''Created directory: '' @ fst entry] else [])
     @ walked_files s (seen \<union> entry_dirs entry) (fst entry) (snd entry)
     @ walked_lines s (seen \<union> touched entry) entries"

text \<open>All the lines a table could give, in its order.\<close>

definition all_lines :: "(string \<times> string list) list \<Rightarrow> string list" where
  "all_lines entries =
     concat (map (\<lambda>(directory, files).
       (''Created directory: '' @ directory)
       # map (\<lambda>file. ''Created file: '' @ directory @ ''/'' @ file) files) entries)"

definition agrees :: "fs \<Rightarrow> path set \<Rightarrow> fs \<Rightarrow> bool" where
  "agrees s seen t \<longleftrightarrow> (\<forall>p. (nodes t p = None) = missing s seen p)"

section \<open>Some concrete states\<close>

text \<open>A writable working directory with nothing in it and room for a hundred objects.\<close>

definition empty_cwd :: fs where
  "empty_cwd = \<lparr>nodes = map_of [([], Dir True)], free = 100, new_dir_writable = True\<rparr>"

text \<open>
  A working directory where a regular file sits at \<^verbatim>\<open>public/fonts\<close> and
  \<^verbatim>\<open>components/ui/Button.tsx\<close> already has 500 bytes of content.
\<close>

definition old_content :: string where
  "old_content = replicate 500 (CHR ''x'')"

definition occupied_cwd :: fs where
  "occupied_cwd =
     \<lparr>nodes = map_of
        [([], Dir True),
         ([''public''], Dir True),
         ([''public'', ''fonts''], File ''not a directory''),
         ([''components''], Dir True),
         ([''components'', ''ui''], Dir True),
         ([''components'', ''ui'', ''Button.tsx''], File old_content)],
      free = 100, new_dir_writable = True\<rparr>"

text \<open>Working directories where a regular file sits at \<^verbatim>\<open>public\<close> or at \<^verbatim>\<open>store\<close>.\<close>

definition public_is_file :: fs where
  "public_is_file =
     \<lparr>nodes = map_of [([], Dir True), ([''public''], File ''x'')], free = 100,
      new_dir_writable = True\<rparr>"


text \<open>
  A working directory the process may not write to, and an empty one on a storage with
  room for seven objects.
\<close>

definition readonly_cwd :: fs where
  "readonly_cwd = \<lparr>nodes = map_of [([], Dir False)], free = 100, new_dir_writable = True\<rparr>"

definition small_disk :: fs where
  "small_disk = \<lparr>nodes = map_of [([], Dir True)], free = 7, new_dir_writable = True\<rparr>"

text \<open>The directories a run in an empty working directory makes, and the lines that name one.\<close>

definition made_dirs :: "path list" where
  "made_dirs =
     [[''public''], [''public'', ''fonts''], [''public'', ''icons''], [''public'', ''presets''],
      [''app''], [''app'', ''api''], [''app'', ''api'', ''export''], [''app'', ''api'', ''presets''],
      [''components''], [''components'', ''ui''], [''components'', ''layout''],
      [''components'', ''audio''], [''components'', ''modals''], [''components'', ''controls''],
      [''lib''], [''lib'', ''audio''], [''lib'', ''hooks''], [''lib'', ''utils''],
      [''types''], [''store''], [''store'', ''slices'']]"

definition is_directory_line :: "string \<Rightarrow> bool" where
  "is_directory_line l = (take 19 l = ''Created directory: '')"

section \<open>How a state grows under the calls\<close>

lemma grows_refl: "grows D F s s"
  by (simp add: grows_def created_def)

lemma butlast_neq: "p \<noteq> [] \<Longrightarrow> butlast p \<noteq> p"
  by (cases p rule: rev_cases) auto

lemma grows_parent:
  "grows D F s s' \<Longrightarrow> nodes s p = None \<Longrightarrow> nodes s' p \<noteq> None \<Longrightarrow>
     p \<noteq> [] \<and> nodes s' (butlast p) = Some (Dir True)"
  by (simp add: grows_def)

lemma grows_free: "grows D F s s' \<Longrightarrow> free s' + card (created s s') = free s"
  by (simp add: grows_def)

lemma grows_mode: "grows D F s s' \<Longrightarrow> new_dir_writable s' = new_dir_writable s"
  by (simp add: grows_def)

lemma grows_finite: "grows D F s s' \<Longrightarrow> finite (created s s')"
  by (simp add: grows_def)

lemma grows_keeps: "grows D F s s' \<Longrightarrow> nodes s p = Some n \<Longrightarrow> nodes s' p = Some n"
  by (simp add: grows_def)

lemma grows_new:
  "grows D F s s' \<Longrightarrow> nodes s p = None \<Longrightarrow> nodes s' p = Some n \<Longrightarrow>
     (p \<in> D \<and> n = Dir (new_dir_writable s)) \<or> (p \<in> F \<and> n = File [])"
  by (simp add: grows_def)

lemma grows_outside:
  "grows D F s s' \<Longrightarrow> p \<notin> D \<Longrightarrow> p \<notin> F \<Longrightarrow> nodes s' p = nodes s p"
  by (cases "nodes s p"; cases "nodes s' p") (auto simp: grows_def)

lemma grows_mono: "grows D F s s' \<Longrightarrow> D \<subseteq> D' \<Longrightarrow> F \<subseteq> F' \<Longrightarrow> grows D' F' s s'"
  unfolding grows_def by blast

lemma created_trans:
  assumes "\<forall>p n. nodes s p = Some n \<longrightarrow> nodes s' p = Some n"
      and "\<forall>p n. nodes s' p = Some n \<longrightarrow> nodes s'' p = Some n"
  shows "created s s'' = created s s' \<union> created s' s''" "created s s' \<inter> created s' s'' = {}"
  using assms unfolding created_def by (auto simp: dom_def) 

lemma grows_trans:
  assumes "grows D F s s'" "grows D' F' s' s''"
  shows "grows (D \<union> D') (F \<union> F') s s''"
proof -
  have k1: "\<forall>p n. nodes s p = Some n \<longrightarrow> nodes s' p = Some n"
   and k2: "\<forall>p n. nodes s' p = Some n \<longrightarrow> nodes s'' p = Some n"
    using assms by (simp_all add: grows_def)
  have f1: "finite (created s s')" and f2: "finite (created s' s'')"
    using assms by (simp_all add: grows_def)
  have c: "card (created s s'') = card (created s s') + card (created s' s'')"
    using created_trans[OF k1 k2] f1 f2 by (simp add: card_Un_disjoint)
  have fr: "free s'' + card (created s s'') = free s"
    using assms c by (simp add: grows_def)
  have md: "new_dir_writable s' = new_dir_writable s" "new_dir_writable s'' = new_dir_writable s'"
    using assms by (simp_all add: grows_def)
  have new: "(p \<in> D \<union> D' \<and> n = Dir (new_dir_writable s)) \<or> (p \<in> F \<union> F' \<and> n = File [])"
    if "nodes s p = None" "nodes s'' p = Some n" for p n
  proof (cases "nodes s' p")
    case None
    then show ?thesis using grows_new[OF assms(2) None that(2)] md by auto
  next
    case (Some m)
    then have "nodes s'' p = Some m" using k2 by blast
    then have "m = n" using that by simp
    then show ?thesis using grows_new[OF assms(1) that(1)] Some by blast
  qed
  have par: "p \<noteq> [] \<and> nodes s'' (butlast p) = Some (Dir True)"
    if "nodes s p = None" "nodes s'' p \<noteq> None" for p
  proof (cases "nodes s' p")
    case None
    then show ?thesis using assms(2) that(2) by (simp add: grows_def)
  next
    case (Some m)
    then have "p \<noteq> [] \<and> nodes s' (butlast p) = Some (Dir True)"
      using assms(1) that(1) by (simp add: grows_def)
    then show ?thesis using k2 by blast
  qed
  have fin: "finite (created s s'')" using created_trans(1)[OF k1 k2] f1 f2 by simp
  show ?thesis
    unfolding grows_def using k1 k2 new par fr fin md by auto
qed

lemma mkdir_fails: "mkdir p s = (Some e, s') \<Longrightarrow> s' = s"
  by (auto simp: mkdir_def split: if_splits option.splits node.splits)

lemma mkdir_ok:
  assumes "mkdir p s = (None, s')"
  shows "p \<noteq> []" "nodes s p = None" "nodes s (butlast p) = Some (Dir True)"
    "nodes s' = (nodes s)(p \<mapsto> Dir (new_dir_writable s))" "free s = Suc (free s')"
    "new_dir_writable s' = new_dir_writable s"
  using assms by (auto simp: mkdir_def path_exists_def split: if_splits option.splits node.splits)

lemma mkdir_grows: "mkdir p s = (r, s') \<Longrightarrow> grows {p} {} s s'"
proof (cases r)
  case None
  assume a: "mkdir p s = (r, s')"
  note ok = mkdir_ok[OF a[unfolded None]]
  have "created s s' = {p}" using ok by (auto simp: created_def)
  then show ?thesis using ok butlast_neq[of p] by (auto simp: grows_def)
next
  case (Some e)
  assume "mkdir p s = (r, s')"
  then show ?thesis using Some mkdir_fails grows_refl by metis
qed


lemma open_fails: "open_w_path p s = (Some e, s') \<Longrightarrow> s' = s"
  by (auto simp: open_w_path_def split: if_splits option.splits node.splits)

lemma open_ok:
  assumes "open_w_path p s = (None, s')" "nodes s p = None"
  shows "p \<noteq> []" "nodes s (butlast p) = Some (Dir True)"
    "nodes s' = (nodes s)(p \<mapsto> File [])" "free s = Suc (free s')"
    "new_dir_writable s' = new_dir_writable s"
  using assms by (auto simp: open_w_path_def path_exists_def split: if_splits option.splits node.splits)

lemma open_grows:
  assumes "open_w_path p s = (r, s')" "nodes s p = None"
  shows "grows {} {p} s s'"
proof (cases r)
  case None
  note ok = open_ok[OF assms(1)[unfolded None] assms(2)]
  have "created s s' = {p}" using ok assms(2) by (auto simp: created_def)
  then show ?thesis using ok assms(2) butlast_neq[of p] by (auto simp: grows_def)
next
  case (Some e)
  then show ?thesis using assms open_fails grows_refl by metis
qed

lemma makedirs_base:
  "p = [] \<or> path_exists (butlast p) s \<Longrightarrow> makedirs p s = mkdir p s"
  by (subst makedirs.simps) auto

lemma makedirs_rec:
  assumes "p \<noteq> []" "\<not> path_exists (butlast p) s" "makedirs (butlast p) s = (r1, s1)"
  shows "makedirs p s = (if r1 = None \<or> r1 = Some FileExistsError then mkdir p s1 else (r1, s1))"
proof (cases r1)
  case None
  then show ?thesis using assms by (subst makedirs.simps) simp
next
  case (Some e)
  then show ?thesis using assms by (subst makedirs.simps) (cases e; simp)
qed

lemma makedirs_grows: "makedirs p s = (r, s') \<Longrightarrow> grows {q. prefix q p} {} s s'"
proof (induction p s arbitrary: r s' rule: makedirs.induct)
  case (1 p s)
  show ?case
  proof (cases "p \<noteq> [] \<and> \<not> path_exists (butlast p) s")
    case False
    then have "mkdir p s = (r, s')" using "1.prems" makedirs_base by auto
    then have "grows {p} {} s s'" by (rule mkdir_grows)
    then show ?thesis by (rule grows_mono) auto
  next
    case True
    obtain r1 s1 where inner: "makedirs (butlast p) s = (r1, s1)" by (cases "makedirs (butlast p) s")
    have g1: "grows {q. prefix q (butlast p)} {} s s1" using "1.IH"[OF True inner] .
    have sub: "{q. prefix q (butlast p)} \<subseteq> {q. prefix q p}"
      using prefix_order.order_trans prefixeq_butlast by blast
    have unf: "makedirs p s = (if r1 = None \<or> r1 = Some FileExistsError then mkdir p s1 else (r1, s1))"
      using makedirs_rec True inner by blast
    show ?thesis
    proof (cases "r1 = None \<or> r1 = Some FileExistsError")
      case True
      then have "mkdir p s1 = (r, s')" using "1.prems" unf by simp
      then have "grows {p} {} s1 s'" by (rule mkdir_grows)
      from grows_trans[OF g1 this] show ?thesis
        by (rule grows_mono) (use sub in auto)
    next
      case False
      then have "r = r1 \<and> s' = s1" using "1.prems" unf by auto
      then show ?thesis using g1 sub grows_mono by blast
    qed
  qed
qed


lemma makedirs_ok_exists:
  assumes "makedirs p s = (None, s')"
  shows "nodes s' p \<noteq> None"
proof -
  have m: "\<exists>s1. mkdir p s1 = (None, s')"
  proof (cases "p \<noteq> [] \<and> \<not> path_exists (butlast p) s")
    case False
    then show ?thesis using assms makedirs_base by auto
  next
    case True
    obtain r1 s1 where inner: "makedirs (butlast p) s = (r1, s1)" by (cases "makedirs (butlast p) s")
    show ?thesis using makedirs_rec[of p s r1 s1] True inner assms
      by (auto split: if_splits)
  qed
  then obtain s1 where "mkdir p s1 = (None, s')" by blast
  then have "nodes s' = (nodes s1)(p \<mapsto> Dir (new_dir_writable s1))" by (rule mkdir_ok(4))
  then show ?thesis by simp
qed

lemma not_prefix_butlast: "p \<noteq> [] \<Longrightarrow> \<not> prefix p (butlast p)"
proof
  assume "p \<noteq> []" "prefix p (butlast p)"
  from this(2) have "length p \<le> length (butlast p)" by (rule prefix_length_le)
  then show False using \<open>p \<noteq> []\<close> by (cases p rule: rev_cases) auto
qed

text \<open>A failing \<open>makedirs\<close> leaves the path it was asked for as it was.\<close>

lemma makedirs_fails_target:
  assumes "makedirs p s = (Some e, s')"
  shows "nodes s' p = nodes s p"
proof (cases "p \<noteq> [] \<and> \<not> path_exists (butlast p) s")
  case False
  then have "mkdir p s = (Some e, s')" using assms makedirs_base by auto
  then have "s' = s" by (rule mkdir_fails)
  then show ?thesis by simp
next
  case True
  obtain r1 s1 where inner: "makedirs (butlast p) s = (r1, s1)" by (cases "makedirs (butlast p) s")
  have g1: "grows {q. prefix q (butlast p)} {} s s1" using makedirs_grows[OF inner] .
  have same1: "nodes s1 p = nodes s p"
    using grows_outside[OF g1, of p] not_prefix_butlast True by auto
  have unf: "makedirs p s = (if r1 = None \<or> r1 = Some FileExistsError then mkdir p s1 else (r1, s1))"
    using makedirs_rec True inner by blast
  show ?thesis
  proof (cases "r1 = None \<or> r1 = Some FileExistsError")
    case True
    then have "mkdir p s1 = (Some e, s')" using assms unf by simp
    then have "s' = s1" by (rule mkdir_fails)
    then show ?thesis using same1 by simp
  next
    case False
    then show ?thesis using assms unf same1 by auto
  qed
qed

lemma mkdir_not_exists_error:
  "nodes s p = None \<Longrightarrow> mkdir p s \<noteq> (Some FileExistsError, s')"
  by (auto simp: mkdir_def path_exists_def split: option.splits node.splits)

lemma makedirs_not_exists_error:
  "nodes s p = None \<Longrightarrow> makedirs p s \<noteq> (Some FileExistsError, s')"
proof (induction p s arbitrary: s' rule: makedirs.induct)
  case (1 p s)
  show ?case
  proof (cases "p \<noteq> [] \<and> \<not> path_exists (butlast p) s")
    case False
    then show ?thesis using "1.prems" makedirs_base mkdir_not_exists_error by auto
  next
    case True
    obtain r1 s1 where inner: "makedirs (butlast p) s = (r1, s1)" by (cases "makedirs (butlast p) s")
    have r1: "r1 \<noteq> Some FileExistsError"
      using "1.IH"[OF True, of s1] True inner by (auto simp: path_exists_def)
    have g1: "grows {q. prefix q (butlast p)} {} s s1" using makedirs_grows[OF inner] .
    have same1: "nodes s1 p = None"
      using grows_outside[OF g1, of p] not_prefix_butlast True "1.prems" by auto
    have unf: "makedirs p s = (if r1 = None \<or> r1 = Some FileExistsError then mkdir p s1 else (r1, s1))"
      using makedirs_rec True inner by blast
    show ?thesis using unf r1 same1 mkdir_not_exists_error by auto
  qed
qed

text \<open>Calling a failed \<open>makedirs\<close> again, on the state it left, fails in the same way.\<close>

lemma makedirs_fails_again:
  "makedirs p s = (Some e, s') \<Longrightarrow> nodes s p = None \<Longrightarrow> makedirs p s' = (Some e, s')"
proof (induction p s arbitrary: e s' rule: makedirs.induct)
  case (1 p s)
  show ?case
  proof (cases "p \<noteq> [] \<and> \<not> path_exists (butlast p) s")
    case False
    then have "mkdir p s = (Some e, s')" using "1.prems" makedirs_base by auto
    then have "s' = s" by (rule mkdir_fails)
    then show ?thesis using "1.prems" by simp
  next
    case True
    obtain r1 s1 where inner: "makedirs (butlast p) s = (r1, s1)" by (cases "makedirs (butlast p) s")
    have nb: "nodes s (butlast p) = None" using True by (simp add: path_exists_def)
    have r1: "r1 \<noteq> Some FileExistsError"
      using makedirs_not_exists_error[OF nb] inner by auto
    have unf: "makedirs p s = (if r1 = None \<or> r1 = Some FileExistsError then mkdir p s1 else (r1, s1))"
      using makedirs_rec True inner by blast
    show ?thesis
    proof (cases r1)
      case None
      then have m: "mkdir p s1 = (Some e, s')" using unf "1.prems" by simp
      then have eq: "s' = s1" using mkdir_fails by blast
      have "path_exists (butlast p) s1"
        using makedirs_ok_exists inner None by (auto simp: path_exists_def)
      then show ?thesis using makedirs_base[of p s1] m eq by simp
    next
      case (Some e1)
      then have eq: "e = e1 \<and> s' = s1" using unf r1 "1.prems" by auto
      have again: "makedirs (butlast p) s1 = (Some e1, s1)"
        using "1.IH"[OF True] inner Some nb by simp
      have "nodes s1 (butlast p) = nodes s (butlast p)"
        using makedirs_fails_target[of "butlast p" s e1 s1] inner Some by simp
      then have "nodes s1 (butlast p) = None" using nb by simp
      then have "\<not> path_exists (butlast p) s1" by (simp add: path_exists_def)
      then show ?thesis using makedirs_rec[of p s1 "Some e1" s1] True again r1 Some eq by simp
    qed
  qed
qed


section \<open>The loops, case by case\<close>

lemma create_files_cases:
  assumes "create_files d (os_path_join base_dir d) (f # fs) s = (r, s', out)"
  obtains
    (skip) "nodes s (file_target d f) \<noteq> None"
      "create_files d (os_path_join base_dir d) fs s = (r, s', out)"
  | (fail) e where "nodes s (file_target d f) = None"
      "open_w_path (file_target d f) s = (Some e, s')" "r = Some e" "out = []"
  | (make) s1 out1 where "nodes s (file_target d f) = None"
      "open_w_path (file_target d f) s = (None, s1)"
      "create_files d (os_path_join base_dir d) fs s1 = (r, s', out1)"
      "out = (''Created file: '' @ d @ ''/'' @ f) # out1"
proof (cases "nodes s (file_target d f)")
  case (Some n)
  then show ?thesis using assms skip
    by (simp add: os_path_exists_def path_exists_def file_target_def)
next
  case None
  obtain r1 s1 where o: "open_w_path (file_target d f) s = (r1, s1)"
    by (cases "open_w_path (file_target d f) s")
  show ?thesis
  proof (cases r1)
    case (Some e)
    then show ?thesis using assms None o fail
      by (simp add: os_path_exists_def path_exists_def file_target_def open_w_def)
  next
    case r1: None
    obtain r2 s2 out2 where c: "create_files d (os_path_join base_dir d) fs s1 = (r2, s2, out2)"
      by (cases "create_files d (os_path_join base_dir d) fs s1")
    show ?thesis using assms None o r1 c make
      by (simp add: os_path_exists_def path_exists_def file_target_def open_w_def)
  qed
qed

lemma create_files_grows:
  "create_files d (os_path_join base_dir d) fs s = (r, s', out) \<Longrightarrow>
     grows {} (set (map (file_target d) fs)) s s'"
proof (induction fs arbitrary: s r s' out)
  case Nil
  then show ?case by (simp add: grows_refl)
next
  case (Cons f fs)
  from Cons.prems show ?case
  proof (cases rule: create_files_cases)
    case skip
    from Cons.IH[OF skip(2)] show ?thesis by (rule grows_mono) auto
  next
    case (fail e)
    then have "s' = s" using open_fails by blast
    then show ?thesis by (simp add: grows_refl)
  next
    case (make s1 out1)
    have g1: "grows {} {file_target d f} s s1" using open_grows[OF make(2) make(1)] .
    from grows_trans[OF g1 Cons.IH[OF make(3)]] show ?thesis by (rule grows_mono) auto
  qed
qed

lemma create_files_ok:
  "create_files d (os_path_join base_dir d) fs s = (None, s', out) \<Longrightarrow> f \<in> set fs \<Longrightarrow>
     nodes s' (file_target d f) \<noteq> None"
proof (induction fs arbitrary: s out)
  case Nil
  then show ?case by simp
next
  case (Cons g fs)
  from Cons.prems(1) show ?case
  proof (cases rule: create_files_cases)
    case skip
    show ?thesis
    proof (cases "f = g")
      case True
      obtain n where "nodes s (file_target d g) = Some n" using skip(1) by auto
      then have "nodes s' (file_target d g) = Some n"
        using grows_keeps[OF create_files_grows[OF skip(2)]] by blast
      then show ?thesis using True by simp
    next
      case False
      then show ?thesis using Cons.IH[OF skip(2)] Cons.prems(2) by simp
    qed
  next
    case (fail e)
    then show ?thesis by simp
  next
    case (make s1 out1)
    show ?thesis
    proof (cases "f = g")
      case True
      have "nodes s1 (file_target d g) = Some (File [])"
        using open_ok(3)[OF make(2) make(1)] by simp
      then have "nodes s' (file_target d g) = Some (File [])"
        using grows_keeps[OF create_files_grows[OF make(3)]] by blast
      then show ?thesis using True by simp
    next
      case False
      then show ?thesis using Cons.IH[OF make(3)] Cons.prems(2) by simp
    qed
  qed
qed


lemma create_entry_cases:
  assumes "create_entry (d, fs) s = (r, s', out)"
  obtains
    (present) "nodes s (dir_target d) \<noteq> None"
      "create_files d (os_path_join base_dir d) fs s = (r, s', out)"
  | (fail) e where "nodes s (dir_target d) = None"
      "makedirs (dir_target d) s = (Some e, s')" "r = Some e" "out = []"
  | (make) s1 out1 where "nodes s (dir_target d) = None"
      "makedirs (dir_target d) s = (None, s1)"
      "create_files d (os_path_join base_dir d) fs s1 = (r, s', out1)"
      "out = (''Created directory: '' @ d) # out1"
proof (cases "nodes s (dir_target d)")
  case (Some n)
  then show ?thesis using assms present
    by (simp add: create_entry_def os_path_exists_def path_exists_def dir_target_def)
next
  case None
  obtain r1 s1 where o: "makedirs (dir_target d) s = (r1, s1)"
    by (cases "makedirs (dir_target d) s")
  show ?thesis
  proof (cases r1)
    case (Some e)
    then show ?thesis using assms None o fail
      by (simp add: create_entry_def os_path_exists_def path_exists_def dir_target_def os_makedirs_def)
  next
    case r1: None
    obtain r2 s2 out2 where c: "create_files d (os_path_join base_dir d) fs s1 = (r2, s2, out2)"
      by (cases "create_files d (os_path_join base_dir d) fs s1")
    show ?thesis using assms None o r1 c make
      by (simp add: create_entry_def os_path_exists_def path_exists_def dir_target_def os_makedirs_def)
  qed
qed

lemma walk_cases:
  assumes "walk (entry # entries) s = (r, s', out)"
  obtains
    (fail) e where "create_entry entry s = (Some e, s', out)" "r = Some e"
  | (step) s1 out1 out2 where "create_entry entry s = (None, s1, out1)"
      "walk entries s1 = (r, s', out2)" "out = out1 @ out2"
proof -
  obtain r1 s1 out1 where c: "create_entry entry s = (r1, s1, out1)"
    by (cases "create_entry entry s")
  show ?thesis
  proof (cases r1)
    case (Some e)
    then show ?thesis using assms c fail by auto
  next
    case None
    obtain r2 s2 out2 where w: "walk entries s1 = (r2, s2, out2)"
      by (cases "walk entries s1")
    show ?thesis using assms c None w step by auto
  qed
qed

lemma create_entry_grows:
  assumes "create_entry entry s = (r, s', out)"
  shows "grows (entry_dirs entry) (entry_files entry) s s'"
proof -
  obtain d fs where e: "entry = (d, fs)" by (cases entry)
  from assms[unfolded e] show ?thesis
  proof (cases rule: create_entry_cases)
    case present
    from create_files_grows[OF present(2)] show ?thesis
      by (rule grows_mono) (auto simp: e entry_files_def)
  next
    case (fail x)
    from makedirs_grows[OF fail(2)] show ?thesis
      by (rule grows_mono) (auto simp: e entry_dirs_def)
  next
    case (make s1 out1)
    from grows_trans[OF makedirs_grows[OF make(2)] create_files_grows[OF make(3)]]
    show ?thesis by (rule grows_mono) (auto simp: e entry_dirs_def entry_files_def)
  qed
qed

lemma walk_grows:
  "walk entries s = (r, s', out) \<Longrightarrow> grows (spec_dirs entries) (spec_files entries) s s'"
proof (induction entries arbitrary: s r s' out)
  case Nil
  then show ?case by (simp add: grows_refl)
next
  case (Cons entry entries)
  from Cons.prems show ?case
  proof (cases rule: walk_cases)
    case (fail e)
    from create_entry_grows[OF fail(1)] show ?thesis
      by (rule grows_mono) (auto simp: spec_dirs_def spec_files_def)
  next
    case (step s1 out1 out2)
    from grows_trans[OF create_entry_grows[OF step(1)] Cons.IH[OF step(2)]]
    show ?thesis by (rule grows_mono) (auto simp: spec_dirs_def spec_files_def)
  qed
qed

lemma grows_exists: "grows D F s s' \<Longrightarrow> nodes s p \<noteq> None \<Longrightarrow> nodes s' p \<noteq> None"
  using grows_keeps by fastforce

lemma entry_done_grows: "grows D F s s' \<Longrightarrow> entry_done entry s \<Longrightarrow> entry_done entry s'"
  unfolding entry_done_def using grows_exists by blast

lemma create_entry_ok:
  assumes "create_entry entry s = (None, s', out)"
  shows "entry_done entry s'"
proof -
  obtain d fs where e: "entry = (d, fs)" by (cases entry)
  from assms[unfolded e] show ?thesis
  proof (cases rule: create_entry_cases)
    case present
    have "nodes s' (dir_target d) \<noteq> None"
      using grows_exists[OF create_files_grows[OF present(2)] present(1)] .
    then show ?thesis using create_files_ok[OF present(2)] by (simp add: entry_done_def e)
  next
    case (fail x)
    then show ?thesis by simp
  next
    case (make s1 out1)
    have "nodes s1 (dir_target d) \<noteq> None" using makedirs_ok_exists[OF make(2)] by simp
    then have "nodes s' (dir_target d) \<noteq> None"
      using grows_exists[OF create_files_grows[OF make(3)]] by blast
    then show ?thesis using create_files_ok[OF make(3)] by (simp add: entry_done_def e)
  qed
qed

lemma walk_ok:
  "walk entries s = (None, s', out) \<Longrightarrow> entry \<in> set entries \<Longrightarrow> entry_done entry s'"
proof (induction entries arbitrary: s out)
  case Nil
  then show ?case by simp
next
  case (Cons x entries)
  from Cons.prems(1) show ?case
  proof (cases rule: walk_cases)
    case (fail e)
    then show ?thesis by simp
  next
    case (step s1 out1 out2)
    show ?thesis
    proof (cases "entry = x")
      case True
      then show ?thesis
        using entry_done_grows[OF walk_grows[OF step(2)] create_entry_ok[OF step(1)]] by simp
    next
      case False
      then show ?thesis using Cons.IH[OF step(2)] Cons.prems(2) by simp
    qed
  qed
qed

lemma create_files_done:
  "\<forall>f \<in> set fs. nodes s (file_target d f) \<noteq> None \<Longrightarrow>
     create_files d (os_path_join base_dir d) fs s = (None, s, [])"
  by (induction fs) (auto simp: os_path_exists_def path_exists_def file_target_def)

lemma create_entry_done: "entry_done entry s \<Longrightarrow> create_entry entry s = (None, s, [])"
  using create_files_done[of "snd entry" s "fst entry"]
  by (cases entry)
     (auto simp: entry_done_def create_entry_def os_path_exists_def path_exists_def dir_target_def)

lemma walk_done: "\<forall>entry \<in> set entries. entry_done entry s \<Longrightarrow> walk entries s = (None, s, [])"
  by (induction entries) (auto simp: create_entry_done)


lemma create_files_skip:
  "nodes s (file_target d f) \<noteq> None \<Longrightarrow>
     create_files d (os_path_join base_dir d) (f # fs) s =
     create_files d (os_path_join base_dir d) fs s"
  by (auto simp: os_path_exists_def path_exists_def file_target_def Let_def)

lemma create_files_fail:
  "nodes s (file_target d f) = None \<Longrightarrow> open_w_path (file_target d f) s = (Some e, s1) \<Longrightarrow>
     create_files d (os_path_join base_dir d) (f # fs) s = (Some e, s1, [])"
  by (simp add: os_path_exists_def path_exists_def file_target_def open_w_def)

lemma create_files_again:
  "create_files d (os_path_join base_dir d) fs s = (r, s', out) \<Longrightarrow>
     create_files d (os_path_join base_dir d) fs s' = (r, s', [])"
proof (induction fs arbitrary: s out)
  case Nil
  then show ?case by simp
next
  case (Cons f fs)
  from Cons.prems show ?case
  proof (cases rule: create_files_cases)
    case skip
    have "nodes s' (file_target d f) \<noteq> None"
      using grows_exists[OF create_files_grows[OF skip(2)] skip(1)] .
    then show ?thesis using create_files_skip Cons.IH[OF skip(2)] by simp
  next
    case (fail e)
    have "s' = s" using open_fails[OF fail(2)] .
    then show ?thesis using create_files_fail[of s d f e s fs] fail by simp
  next
    case (make s1 out1)
    have "nodes s1 (file_target d f) \<noteq> None"
      using open_ok(3)[OF make(2) make(1)] by simp
    then have "nodes s' (file_target d f) \<noteq> None"
      using grows_exists[OF create_files_grows[OF make(3)]] by blast
    then show ?thesis using create_files_skip Cons.IH[OF make(3)] by simp
  qed
qed

lemma create_entry_present:
  "nodes s (dir_target d) \<noteq> None \<Longrightarrow>
     create_entry (d, fs) s = create_files d (os_path_join base_dir d) fs s"
  by (auto simp: create_entry_def os_path_exists_def path_exists_def dir_target_def Let_def)

lemma create_entry_fail:
  "nodes s (dir_target d) = None \<Longrightarrow> makedirs (dir_target d) s = (Some e, s1) \<Longrightarrow>
     create_entry (d, fs) s = (Some e, s1, [])"
  by (simp add: create_entry_def os_path_exists_def path_exists_def dir_target_def os_makedirs_def)

lemma create_entry_again:
  assumes "create_entry entry s = (r, s', out)"
  shows "create_entry entry s' = (r, s', [])"
proof -
  obtain d fs where e: "entry = (d, fs)" by (cases entry)
  from assms[unfolded e] show ?thesis
  proof (cases rule: create_entry_cases)
    case present
    have "nodes s' (dir_target d) \<noteq> None"
      using grows_exists[OF create_files_grows[OF present(2)] present(1)] .
    then show ?thesis using create_entry_present create_files_again[OF present(2)] e by simp
  next
    case (fail x)
    have a: "makedirs (dir_target d) s' = (Some x, s')"
      using makedirs_fails_again[OF fail(2) fail(1)] .
    have "nodes s' (dir_target d) = None"
      using makedirs_fails_target[OF fail(2)] fail(1) by simp
    then show ?thesis using create_entry_fail[OF _ a] fail e by simp
  next
    case (make s1 out1)
    have "nodes s1 (dir_target d) \<noteq> None" using makedirs_ok_exists[OF make(2)] by simp
    then have "nodes s' (dir_target d) \<noteq> None"
      using grows_exists[OF create_files_grows[OF make(3)]] by blast
    then show ?thesis using create_entry_present create_files_again[OF make(3)] e by simp
  qed
qed

lemma walk_again: "walk entries s = (r, s', out) \<Longrightarrow> walk entries s' = (r, s', [])"
proof (induction entries arbitrary: s out)
  case Nil
  then show ?case by simp
next
  case (Cons entry entries)
  from Cons.prems show ?case
  proof (cases rule: walk_cases)
    case (fail e)
    then show ?thesis using create_entry_again[OF fail(1)] by simp
  next
    case (step s1 out1 out2)
    have "entry_done entry s'"
      using entry_done_grows[OF walk_grows[OF step(2)] create_entry_ok[OF step(1)]] .
    then have "create_entry entry s' = (None, s', [])" by (rule create_entry_done)
    then show ?thesis using Cons.IH[OF step(2)] by simp
  qed
qed



section \<open>Walking a rearranged table\<close>

lemma tree_grows:
  assumes "tree s" "grows D F s s'"
  shows "tree s'"
  unfolding tree_def
proof (intro allI impI)
  fix p assume p: "p \<noteq> []" "nodes s' p \<noteq> None"
  show "\<exists>w. nodes s' (butlast p) = Some (Dir w)"
  proof (cases "nodes s p")
    case None
    then show ?thesis using grows_parent[OF assms(2) None p(2)] by blast
  next
    case (Some n)
    then have "nodes s p \<noteq> None" by simp
    then obtain w where "nodes s (butlast p) = Some (Dir w)"
      using assms(1) p(1) unfolding tree_def by blast
    then show ?thesis using grows_keeps[OF assms(2)] by blast
  qed
qed

lemma tree_prefix:
  "tree s \<Longrightarrow> nodes s p \<noteq> None \<Longrightarrow> prefix q p \<Longrightarrow> nodes s q \<noteq> None"
proof (induction p rule: rev_induct)
  case Nil
  then show ?case by simp
next
  case (snoc x xs)
  show ?case
  proof (cases "q = xs @ [x]")
    case True
    then show ?thesis using snoc.prems by simp
  next
    case False
    then have q: "prefix q xs" using snoc.prems(3) by (auto simp: prefix_snoc)
    have "\<exists>w. nodes s (butlast (xs @ [x])) = Some (Dir w)"
      using snoc.prems(1,2) unfolding tree_def by blast
    then have "nodes s xs \<noteq> None" by auto
    then show ?thesis using snoc.IH snoc.prems(1) q by blast
  qed
qed

text \<open>Adding one object that the target state has keeps the state below the target.\<close>

lemma grows_step:
  assumes g: "grows D F t s1" and tp: "nodes t p = None" and sp: "nodes s1 p = Some n"
  shows "free t \<noteq> 0"
    "grows D F (t\<lparr>nodes := (nodes t)(p \<mapsto> n), free := free t - 1\<rparr>) s1"
proof -
  let ?t' = "t\<lparr>nodes := (nodes t)(p \<mapsto> n), free := free t - 1\<rparr>"
  have pin: "p \<in> created t s1" using tp sp by (auto simp: created_def)
  have fin: "finite (created t s1)" using grows_finite[OF g] .
  have "card (created t s1) \<noteq> 0" using pin fin by auto
  then show f0: "free t \<noteq> 0" using grows_free[OF g] by simp
  have c: "created ?t' s1 = created t s1 - {p}" by (auto simp: created_def)
  have "card (created t s1 - {p}) = card (created t s1) - 1" using pin fin by simp
  then have fr: "free s1 + card (created ?t' s1) = free ?t'"
    using c grows_free[OF g] f0 \<open>card (created t s1) \<noteq> 0\<close> by simp
  have keep: "nodes s1 q = Some m" if "nodes ?t' q = Some m" for q m
  proof (cases "q = p")
    case True
    then show ?thesis using that sp by simp
  next
    case False
    then have "nodes t q = Some m" using that by simp
    then show ?thesis by (rule grows_keeps[OF g])
  qed
  have new: "(q \<in> D \<and> m = Dir (new_dir_writable ?t')) \<or> (q \<in> F \<and> m = File [])"
    if "nodes ?t' q = None" "nodes s1 q = Some m" for q m
  proof -
    have "nodes t q = None" using that(1) by (cases "q = p") simp_all
    then have "(q \<in> D \<and> m = Dir (new_dir_writable t)) \<or> (q \<in> F \<and> m = File [])"
      using that(2) by (rule grows_new[OF g])
    then show ?thesis by simp
  qed
  have par: "q \<noteq> [] \<and> nodes s1 (butlast q) = Some (Dir True)"
    if "nodes ?t' q = None" "nodes s1 q \<noteq> None" for q
  proof -
    have "nodes t q = None" using that(1) by (cases "q = p") simp_all
    then show ?thesis using that(2) by (rule grows_parent[OF g])
  qed
  have fin': "finite (created ?t' s1)" using c fin by simp
  show "grows D F ?t' s1"
    unfolding grows_def
  proof (intro conjI allI impI)
    show "nodes s1 q = Some m" if "nodes ?t' q = Some m" for q m using that by (rule keep)
    show "(q \<in> D \<and> m = Dir (new_dir_writable ?t')) \<or> (q \<in> F \<and> m = File [])"
      if "nodes ?t' q = None" "nodes s1 q = Some m" for q m using that by (rule new)
    show "q \<noteq> []" if "nodes ?t' q = None" "nodes s1 q \<noteq> None" for q
      using par[OF that] by simp
    show "nodes s1 (butlast q) = Some (Dir True)"
      if "nodes ?t' q = None" "nodes s1 q \<noteq> None" for q
      using par[OF that] by simp
    show "finite (created ?t' s1)" by (rule fin')
    show "free s1 + card (created ?t' s1) = free ?t'" by (rule fr)
    show "new_dir_writable s1 = new_dir_writable ?t'" using grows_mode[OF g] by simp
  qed
qed

lemma mkdir_toward:
  assumes g: "grows D F t s1" and dj: "D \<inter> F = {}" and pd: "p \<in> D"
    and tp: "nodes t p = None" and sp: "nodes s1 p \<noteq> None"
    and par: "nodes t (butlast p) \<noteq> None"
  shows "\<exists>t'. mkdir p t = (None, t') \<and> grows D F t' s1"
proof -
  obtain n where n: "nodes s1 p = Some n" using sp by auto
  have nd: "n = Dir (new_dir_writable t)" using grows_new[OF g tp n] dj pd by auto
  have pp: "p \<noteq> []" "nodes s1 (butlast p) = Some (Dir True)"
    using grows_parent[OF g tp sp] by auto
  obtain m where m: "nodes t (butlast p) = Some m" using par by auto
  then have md: "nodes t (butlast p) = Some (Dir True)" using grows_keeps[OF g m] pp(2) by simp
  note st = grows_step[OF g tp n]
  have "mkdir p t =
      (None, t\<lparr>nodes := (nodes t)(p \<mapsto> Dir (new_dir_writable t)), free := free t - 1\<rparr>)"
    using pp(1) md tp st(1) by (simp add: mkdir_def path_exists_def)
  then show ?thesis using st(2) nd by auto
qed

lemma open_toward:
  assumes g: "grows D F t s1" and dj: "D \<inter> F = {}" and pd: "p \<in> F"
    and tp: "nodes t p = None" and sp: "nodes s1 p \<noteq> None"
    and par: "nodes t (butlast p) \<noteq> None"
  shows "\<exists>t'. open_w_path p t = (None, t') \<and> grows D F t' s1"
proof -
  obtain n where n: "nodes s1 p = Some n" using sp by auto
  have nd: "n = File []" using grows_new[OF g tp n] dj pd by auto
  have pp: "p \<noteq> []" "nodes s1 (butlast p) = Some (Dir True)"
    using grows_parent[OF g tp sp] by auto
  obtain m where m: "nodes t (butlast p) = Some m" using par by auto
  then have md: "nodes t (butlast p) = Some (Dir True)" using grows_keeps[OF g m] pp(2) by simp
  note st = grows_step[OF g tp n]
  have "open_w_path p t = (None, t\<lparr>nodes := (nodes t)(p \<mapsto> File []), free := free t - 1\<rparr>)"
    using pp(1) md tp st(1) by (simp add: open_w_path_def path_exists_def)
  then show ?thesis using st(2) nd by auto
qed

lemma makedirs_toward:
  "grows D F t s1 \<Longrightarrow> D \<inter> F = {} \<Longrightarrow> set (prefixes p) \<subseteq> D \<Longrightarrow>
   (\<forall>q. prefix q p \<longrightarrow> nodes s1 q \<noteq> None) \<Longrightarrow> nodes t p = None \<Longrightarrow>
     \<exists>t'. makedirs p t = (None, t') \<and> grows D F t' s1"
proof (induction p t rule: makedirs.induct)
  case (1 p t)
  have pd: "p \<in> D" using "1.prems"(3) by auto
  have sp: "nodes s1 p \<noteq> None" using "1.prems"(4) by auto
  have pne: "p \<noteq> []" using grows_parent[OF "1.prems"(1) "1.prems"(5) sp] by simp
  show ?case
  proof (cases "path_exists (butlast p) t")
    case True
    then have "nodes t (butlast p) \<noteq> None" by (simp add: path_exists_def)
    from mkdir_toward[OF "1.prems"(1,2) pd "1.prems"(5) sp this]
    show ?thesis using makedirs_base[of p t] True by simp
  next
    case False
    have sub: "set (prefixes (butlast p)) \<subseteq> D"
      using "1.prems"(3) prefixeq_butlast[of p] prefix_order.order_trans by fastforce
    have ex: "\<forall>q. prefix q (butlast p) \<longrightarrow> nodes s1 q \<noteq> None"
      using "1.prems"(4) prefixeq_butlast[of p] prefix_order.order_trans by blast
    have nb: "nodes t (butlast p) = None" using False by (simp add: path_exists_def)
    obtain t1 where t1: "makedirs (butlast p) t = (None, t1)" "grows D F t1 s1"
      using "1.IH"[OF _ "1.prems"(1,2) sub ex nb] pne False by blast
    have "nodes t1 p = nodes t p"
      using grows_outside[OF makedirs_grows[OF t1(1)], of p] not_prefix_butlast[OF pne] by simp
    then have tp1: "nodes t1 p = None" using "1.prems"(5) by simp
    have par1: "nodes t1 (butlast p) \<noteq> None" using makedirs_ok_exists[OF t1(1)] by simp
    from mkdir_toward[OF t1(2) "1.prems"(2) pd tp1 sp par1]
    show ?thesis using makedirs_rec[OF pne False t1(1)] by simp
  qed
qed

lemma create_files_make:
  "nodes s (file_target d f) = None \<Longrightarrow> open_w_path (file_target d f) s = (None, s1) \<Longrightarrow>
     create_files d (os_path_join base_dir d) fs s1 = (r, s', out) \<Longrightarrow>
     create_files d (os_path_join base_dir d) (f # fs) s =
       (r, s', (''Created file: '' @ d @ ''/'' @ f) # out)"
  by (simp add: os_path_exists_def path_exists_def file_target_def open_w_def)

lemma create_entry_make:
  "nodes s (dir_target d) = None \<Longrightarrow> makedirs (dir_target d) s = (None, s1) \<Longrightarrow>
     create_files d (os_path_join base_dir d) fs s1 = (r, s', out) \<Longrightarrow>
     create_entry (d, fs) s = (r, s', (''Created directory: '' @ d) # out)"
  by (simp add: create_entry_def os_path_exists_def path_exists_def dir_target_def os_makedirs_def)

lemma create_files_toward:
  "grows D F t s1 \<Longrightarrow> D \<inter> F = {} \<Longrightarrow> nodes t (dir_target d) \<noteq> None \<Longrightarrow>
   (\<forall>f \<in> set fs. file_target d f \<in> F \<and> nodes s1 (file_target d f) \<noteq> None \<and>
        butlast (file_target d f) = dir_target d) \<Longrightarrow>
     \<exists>t' out. create_files d (os_path_join base_dir d) fs t = (None, t', out) \<and> grows D F t' s1"
proof (induction fs arbitrary: t)
  case Nil
  then show ?case by simp
next
  case (Cons f fs)
  have rest: "\<forall>f \<in> set fs. file_target d f \<in> F \<and> nodes s1 (file_target d f) \<noteq> None \<and>
        butlast (file_target d f) = dir_target d" using Cons.prems(4) by auto
  show ?case
  proof (cases "nodes t (file_target d f)")
    case (Some n)
    then have "nodes t (file_target d f) \<noteq> None" by simp
    then show ?thesis
      using create_files_skip[of t d f fs] Cons.IH[OF Cons.prems(1,2,3) rest] by simp
  next
    case None
    have f: "file_target d f \<in> F" "nodes s1 (file_target d f) \<noteq> None"
      "butlast (file_target d f) = dir_target d" using Cons.prems(4) by auto
    have par: "nodes t (butlast (file_target d f)) \<noteq> None" using f(3) Cons.prems(3) by simp
    obtain t1 where t1: "open_w_path (file_target d f) t = (None, t1)" "grows D F t1 s1"
      using open_toward[OF Cons.prems(1,2) f(1) None f(2) par] by blast
    have "nodes t1 (dir_target d) \<noteq> None"
      using grows_exists[OF open_grows[OF t1(1) None] Cons.prems(3)] .
    then obtain t' out where r: "create_files d (os_path_join base_dir d) fs t1 = (None, t', out)"
      "grows D F t' s1" using Cons.IH[OF t1(2) Cons.prems(2) _ rest] by blast
    show ?thesis using create_files_make[OF None t1(1) r(1)] r(2) by blast
  qed
qed

lemma create_entry_toward:
  assumes g: "grows D F t s1" and dj: "D \<inter> F = {}" and fit: "fits D F s1 entry"
  shows "\<exists>t' out. create_entry entry t = (None, t', out) \<and> grows D F t' s1"
proof -
  obtain d fs where e: "entry = (d, fs)" by (cases entry)
  have sub: "set (prefixes (dir_target d)) \<subseteq> D"
    and ex: "\<forall>q. prefix q (dir_target d) \<longrightarrow> nodes s1 q \<noteq> None"
    and files: "\<forall>f \<in> set fs. file_target d f \<in> F \<and> nodes s1 (file_target d f) \<noteq> None \<and>
        butlast (file_target d f) = dir_target d"
    using fit unfolding fits_def e by auto
  show ?thesis
  proof (cases "nodes t (dir_target d)")
    case (Some n)
    then have here: "nodes t (dir_target d) \<noteq> None" by simp
    show ?thesis
      using create_files_toward[OF g dj here files] create_entry_present[OF here, of fs] e by simp
  next
    case None
    obtain t1 where t1: "makedirs (dir_target d) t = (None, t1)" "grows D F t1 s1"
      using makedirs_toward[OF g dj sub ex None] by blast
    have here: "nodes t1 (dir_target d) \<noteq> None" using makedirs_ok_exists[OF t1(1)] by simp
    obtain t' out where r: "create_files d (os_path_join base_dir d) fs t1 = (None, t', out)"
      "grows D F t' s1" using create_files_toward[OF t1(2) dj here files] by blast
    show ?thesis using create_entry_make[OF None t1(1) r(1)] r(2) e by blast
  qed
qed

lemma walk_toward:
  "grows D F t s1 \<Longrightarrow> D \<inter> F = {} \<Longrightarrow> \<forall>entry \<in> set entries. fits D F s1 entry \<Longrightarrow>
     \<exists>t' out. walk entries t = (None, t', out) \<and> grows D F t' s1"
proof (induction entries arbitrary: t)
  case Nil
  then show ?case by simp
next
  case (Cons entry entries)
  have "fits D F s1 entry" using Cons.prems(3) by simp
  then obtain t1 out1 where t1: "create_entry entry t = (None, t1, out1)" "grows D F t1 s1"
    using create_entry_toward[OF Cons.prems(1,2)] by blast
  have "\<forall>entry \<in> set entries. fits D F s1 entry" using Cons.prems(3) by simp
  then obtain t' out where r: "walk entries t1 = (None, t', out)" "grows D F t' s1"
    using Cons.IH[OF t1(2) Cons.prems(2)] by blast
  show ?case using t1(1) r by simp
qed

lemma same_table_entry:
  assumes "same_table entries entries'" "(d, fs') \<in> set entries'"
  shows "\<exists>fs. (d, fs) \<in> set entries \<and> set fs = set fs'"
proof -
  let ?k = "\<lambda>(directory, files). (directory, mset files)"
  have "set (map ?k entries') = set (map ?k entries)"
    using assms(1) unfolding same_table_def by (rule mset_eq_setD)
  moreover have "(d, mset fs') \<in> set (map ?k entries')" using assms(2) by force
  ultimately have "(d, mset fs') \<in> set (map ?k entries)" by simp
  then obtain d0 fs where "(d0, fs) \<in> set entries" "(d, mset fs') = (d0, mset fs)" by auto
  then show ?thesis using mset_eq_setD by blast
qed

lemma same_table_sym: "same_table entries entries' \<Longrightarrow> same_table entries' entries"
  by (simp add: same_table_def)

text \<open>Walking a rearranged table reaches the state the table's own order reaches.\<close>

lemma walk_rearranged:
  assumes tr: "tree s" and nc: "no_clash entries" and pl: "plain_names entries"
    and run: "walk entries s = (None, s1, out1)" and st: "same_table entries entries'"
  shows "\<exists>out2. walk entries' s = (None, s1, out2)"
proof -
  let ?D = "spec_dirs entries" and ?F = "spec_files entries"
  have g0: "grows ?D ?F s s1" using walk_grows[OF run] .
  have dj: "?D \<inter> ?F = {}" using nc by (auto simp: no_clash_def)
  have tr1: "tree s1" using tree_grows[OF tr g0] .
  have fit: "fits ?D ?F s1 entry" if "entry \<in> set entries'" for entry
  proof -
    obtain d fs' where e: "entry = (d, fs')" by (cases entry)
    have "(d, fs') \<in> set entries'" using that e by simp
    from same_table_entry[OF st this]
    obtain fs where fs: "(d, fs) \<in> set entries" "set fs = set fs'" by blast
    have dn: "entry_done (d, fs) s1" using walk_ok[OF run fs(1)] .
    have a: "set (prefixes (dir_target d)) \<subseteq> ?D"
      using fs(1) by (force simp: spec_dirs_def entry_dirs_def)
    have b: "\<forall>q. prefix q (dir_target d) \<longrightarrow> nodes s1 q \<noteq> None"
      using tree_prefix[OF tr1] dn unfolding entry_done_def by auto
    have c: "file_target d f \<in> ?F \<and> nodes s1 (file_target d f) \<noteq> None \<and>
        butlast (file_target d f) = dir_target d" if "f \<in> set fs'" for f
    proof -
      have f: "f \<in> set fs" using that fs(2) by simp
      have "file_target d f \<in> ?F" using fs(1) f by (force simp: spec_files_def entry_files_def)
      moreover have "nodes s1 (file_target d f) \<noteq> None" using dn f by (simp add: entry_done_def)
      moreover have "file_target d f = dir_target d @ [f]"
        using pl fs(1) f by (force simp: plain_names_def)
      then have "butlast (file_target d f) = dir_target d" by simp
      ultimately show ?thesis by simp
    qed
    show ?thesis unfolding fits_def e using a b c by simp
  qed
  obtain t' out2 where r: "walk entries' s = (None, t', out2)" "grows ?D ?F t' s1"
    using walk_toward[OF g0 dj] fit by blast
  have tr': "tree t'" using tree_grows[OF tr walk_grows[OF r(1)]] .
  have none: "nodes s1 p = None" if "nodes t' p = None" for p
  proof (rule ccontr)
    assume "nodes s1 p \<noteq> None"
    then obtain n where n: "nodes s1 p = Some n" by auto
    from grows_new[OF r(2) that n] have "p \<in> ?D \<or> p \<in> ?F" by blast
    then show False
    proof
      assume "p \<in> ?D"
      then obtain d fs where e: "(d, fs) \<in> set entries" "prefix p (dir_target d)"
        by (auto simp: spec_dirs_def entry_dirs_def in_set_prefixes)
      obtain fs' where e': "(d, fs') \<in> set entries'"
        using same_table_entry[OF same_table_sym[OF st] e(1)] by blast
      have "nodes t' (dir_target d) \<noteq> None"
        using walk_ok[OF r(1) e'] by (simp add: entry_done_def)
      then show False using tree_prefix[OF tr' _ e(2)] that by simp
    next
      assume "p \<in> ?F"
      then obtain d fs f where e: "(d, fs) \<in> set entries" "f \<in> set fs" "p = file_target d f"
        by (auto simp: spec_files_def entry_files_def)
      obtain fs' where e': "(d, fs') \<in> set entries'" "set fs' = set fs"
        using same_table_entry[OF same_table_sym[OF st] e(1)] by blast
      have "nodes t' (file_target d f) \<noteq> None"
        using walk_ok[OF r(1) e'(1)] e(2) e'(2) by (simp add: entry_done_def)
      then show False using that e(3) by simp
    qed
  qed
  have nodes_eq: "nodes t' = nodes s1"
  proof
    fix p show "nodes t' p = nodes s1 p"
    proof (cases "nodes t' p")
      case None
      then show ?thesis using none by simp
    next
      case (Some n)
      then show ?thesis using grows_keeps[OF r(2)] by simp
    qed
  qed
  have "created t' s1 = {}" using nodes_eq by (simp add: created_def)
  then have "free t' = free s1" using grows_free[OF r(2)] by simp
  then have "t' = s1" using nodes_eq grows_mode[OF r(2)] by simp
  then show ?thesis using r(1) by blast
qed

section \<open>The lines a run prints\<close>

lemma file_lines_same:
  "\<forall>f \<in> set fs. nodes s1 (file_target d f) = nodes s (file_target d f) \<Longrightarrow>
     file_lines s1 d fs = file_lines s d fs"
  unfolding file_lines_def by (induction fs) auto

lemma create_files_log:
  "distinct (map (file_target d) fs) \<Longrightarrow>
   create_files d (os_path_join base_dir d) fs s = (r, s', out) \<Longrightarrow>
     prefix out (file_lines s d fs) \<and> (r = None \<longrightarrow> out = file_lines s d fs)"
proof (induction fs arbitrary: s out)
  case Nil
  then show ?case by (simp add: file_lines_def)
next
  case (Cons f fs)
  have d: "distinct (map (file_target d) fs)" using Cons.prems(1) by simp
  from Cons.prems(2) show ?case
  proof (cases rule: create_files_cases)
    case skip
    have "file_lines s d (f # fs) = file_lines s d fs" using skip(1) by (simp add: file_lines_def)
    then show ?thesis using Cons.IH[OF d skip(2)] by simp
  next
    case (fail e)
    then show ?thesis by simp
  next
    case (make s1 out1)
    have "nodes s1 = (nodes s)(file_target d f \<mapsto> File [])" using open_ok(3)[OF make(2) make(1)] .
    moreover have "file_target d f \<notin> file_target d ` set fs" using Cons.prems(1) by simp
    then have "\<forall>g \<in> set fs. file_target d g \<noteq> file_target d f" by (metis imageI)
    ultimately have "\<forall>g \<in> set fs. nodes s1 (file_target d g) = nodes s (file_target d g)" by simp
    then have same: "file_lines s1 d fs = file_lines s d fs" by (rule file_lines_same)
    have "file_lines s d (f # fs) = (''Created file: '' @ d @ ''/'' @ f) # file_lines s d fs"
      using make(1) by (simp add: file_lines_def)
    then show ?thesis using Cons.IH[OF d make(3)] same make(4) by simp
  qed
qed

lemma create_entry_log:
  assumes "distinct (map (file_target (fst entry)) (snd entry))"
    and "\<forall>f \<in> set (snd entry). file_target (fst entry) f \<notin> entry_dirs entry"
    and "create_entry entry s = (r, s', out)"
  shows "prefix out (entry_lines s entry) \<and> (r = None \<longrightarrow> out = entry_lines s entry)"
proof -
  obtain d fs where e: "entry = (d, fs)" by (cases entry)
  have di: "distinct (map (file_target d) fs)" using assms(1) e by simp
  from assms(3)[unfolded e] show ?thesis
  proof (cases rule: create_entry_cases)
    case present
    then show ?thesis using create_files_log[OF di present(2)] by (auto simp: entry_lines_def e)
  next
    case (fail x)
    then show ?thesis by simp
  next
    case (make s1 out1)
    have "\<forall>f \<in> set fs. nodes s1 (file_target d f) = nodes s (file_target d f)"
      using grows_outside[OF makedirs_grows[OF make(2)]] assms(2) e
      by (simp add: entry_dirs_def in_set_prefixes)
    then have "file_lines s1 d fs = file_lines s d fs" by (rule file_lines_same)
    then show ?thesis using create_files_log[OF di make(3)] make(1,4)
      by (simp add: entry_lines_def e)
  qed
qed

lemma entry_lines_same:
  assumes "grows D F s s1" "dir_target (fst entry) \<notin> D \<union> F"
    and "\<forall>f \<in> set (snd entry). file_target (fst entry) f \<notin> D \<union> F"
  shows "entry_lines s1 entry = entry_lines s entry"
proof -
  have a: "nodes s1 (dir_target (fst entry)) = nodes s (dir_target (fst entry))"
    using grows_outside[OF assms(1)] assms(2) by simp
  have "\<forall>f \<in> set (snd entry). nodes s1 (file_target (fst entry) f) = nodes s (file_target (fst entry) f)"
    using grows_outside[OF assms(1)] assms(3) by simp
  then have "file_lines s1 (fst entry) (snd entry) = file_lines s (fst entry) (snd entry)"
    by (rule file_lines_same)
  then show ?thesis using a by (simp add: entry_lines_def)
qed

lemma walk_log:
  "fresh entries \<Longrightarrow> walk entries s = (r, s', out) \<Longrightarrow>
     prefix out (expected_lines s entries) \<and> (r = None \<longrightarrow> out = expected_lines s entries)"
proof (induction entries arbitrary: s out)
  case Nil
  then show ?case by (simp add: expected_lines_def)
next
  case (Cons entry entries)
  have f1: "distinct (map (file_target (fst entry)) (snd entry))"
    and f2: "\<forall>f \<in> set (snd entry). file_target (fst entry) f \<notin> entry_dirs entry"
    and f3: "\<forall>later \<in> set entries.
         dir_target (fst later) \<notin> touched entry \<and>
         (\<forall>f \<in> set (snd later). file_target (fst later) f \<notin> touched entry)"
    and f4: "fresh entries" using Cons.prems(1) by simp_all
  have ex: "expected_lines s (entry # entries) = entry_lines s entry @ expected_lines s entries"
    by (simp add: expected_lines_def)
  from Cons.prems(2) show ?case
  proof (cases rule: walk_cases)
    case (fail e)
    then show ?thesis using create_entry_log[OF f1 f2 fail(1)] ex by auto
  next
    case (step s1 out1 out2)
    have o1: "out1 = entry_lines s entry" using create_entry_log[OF f1 f2 step(1)] by simp
    have g: "grows (entry_dirs entry) (entry_files entry) s s1" using create_entry_grows[OF step(1)] .
    have "entry_lines s1 later = entry_lines s later" if "later \<in> set entries" for later
      using entry_lines_same[OF g, of later] f3 that by (simp add: touched_def)
    then have "expected_lines s1 entries = expected_lines s entries"
      by (simp add: expected_lines_def cong: map_cong)
    then show ?thesis using Cons.IH[OF f4 step(2)] o1 step(3) ex by simp
  qed
qed

section \<open>Splitting a walk\<close>

lemma walk_append:
  "walk (xs @ ys) s =
     (case walk xs s of
        (Some e, s', out) \<Rightarrow> (Some e, s', out)
      | (None, s', out) \<Rightarrow> (case walk ys s' of (r, s'', out') \<Rightarrow> (r, s'', out @ out')))"
proof (induction xs arbitrary: s)
  case Nil
  then show ?case by (simp split: prod.splits)
next
  case (Cons x xs)
  obtain r1 s1 out1 where c: "create_entry x s = (r1, s1, out1)" by (cases "create_entry x s")
  show ?case
  proof (cases r1)
    case (Some e)
    then show ?thesis using c by simp
  next
    case None
    then show ?thesis using c Cons.IH[of s1] by (simp split: prod.splits option.splits)
  qed
qed

lemma create_files_append:
  "create_files d (os_path_join base_dir d) (xs @ ys) s =
     (case create_files d (os_path_join base_dir d) xs s of
        (Some e, s', out) \<Rightarrow> (Some e, s', out)
      | (None, s', out) \<Rightarrow>
          (case create_files d (os_path_join base_dir d) ys s' of
             (r, s'', out') \<Rightarrow> (r, s'', out @ out')))"
proof (induction xs arbitrary: s)
  case Nil
  then show ?case by (simp split: prod.splits)
next
  case (Cons f xs)
  show ?case
  proof (cases "nodes s (file_target d f)")
    case (Some n)
    then have "nodes s (file_target d f) \<noteq> None" by simp
    then show ?thesis using create_files_skip[of s d f] Cons.IH[of s] by simp
  next
    case None
    obtain r1 s1 where o: "open_w_path (file_target d f) s = (r1, s1)"
      by (cases "open_w_path (file_target d f) s")
    show ?thesis
    proof (cases r1)
      case (Some e)
      then show ?thesis using create_files_fail[OF None o[unfolded Some]] by simp
    next
      case r1: None
      obtain r2 s2 out2 where a: "create_files d (os_path_join base_dir d) xs s1 = (r2, s2, out2)"
        by (cases "create_files d (os_path_join base_dir d) xs s1")
      obtain r3 s3 out3 where b: "create_files d (os_path_join base_dir d) (xs @ ys) s1 = (r3, s3, out3)"
        by (cases "create_files d (os_path_join base_dir d) (xs @ ys) s1")
      have l: "create_files d (os_path_join base_dir d) (f # xs) s =
          (r2, s2, (''Created file: '' @ d @ ''/'' @ f) # out2)"
        using create_files_make[OF None o[unfolded r1] a] .
      have r: "create_files d (os_path_join base_dir d) ((f # xs) @ ys) s =
          (r3, s3, (''Created file: '' @ d @ ''/'' @ f) # out3)"
        using create_files_make[OF None o[unfolded r1] b] by simp
      show ?thesis using l r a b Cons.IH[of s1] by (auto split: prod.splits option.splits)
    qed
  qed
qed

lemma create_entry_append:
  "create_entry (d, xs @ ys) s =
     (case create_entry (d, xs) s of
        (Some e, s', out) \<Rightarrow> (Some e, s', out)
      | (None, s', out) \<Rightarrow>
          (case create_files d (os_path_join base_dir d) ys s' of
             (r, s'', out') \<Rightarrow> (r, s'', out @ out')))"
proof (cases "nodes s (dir_target d)")
  case (Some n)
  then have "nodes s (dir_target d) \<noteq> None" by simp
  then show ?thesis using create_entry_present[of s d] create_files_append by simp
next
  case None
  obtain r1 s1 where o: "makedirs (dir_target d) s = (r1, s1)" by (cases "makedirs (dir_target d) s")
  show ?thesis
  proof (cases r1)
    case (Some e)
    then show ?thesis using create_entry_fail[OF None o[unfolded Some]] by simp
  next
    case r1: None
    obtain r2 s2 out2 where a: "create_files d (os_path_join base_dir d) xs s1 = (r2, s2, out2)"
      by (cases "create_files d (os_path_join base_dir d) xs s1")
    obtain r3 s3 out3 where b: "create_files d (os_path_join base_dir d) (xs @ ys) s1 = (r3, s3, out3)"
      by (cases "create_files d (os_path_join base_dir d) (xs @ ys) s1")
    show ?thesis
      using create_entry_make[OF None o[unfolded r1] a] create_entry_make[OF None o[unfolded r1] b]
        a b create_files_append[of d xs ys s1]
      by (auto split: prod.splits option.splits)
  qed
qed

text \<open>
  A file that exists may be taken out of an item's list without changing what the walk
  does.
\<close>

lemma create_files_filter:
  "(\<forall>p. nodes s0 p \<noteq> None \<longrightarrow> nodes s p \<noteq> None) \<Longrightarrow>
     create_files d (os_path_join base_dir d)
       (filter (\<lambda>f. nodes s0 (file_target d f) = None) fs) s =
     create_files d (os_path_join base_dir d) fs s"
proof (induction fs arbitrary: s)
  case Nil
  then show ?case by simp
next
  case (Cons f fs)
  show ?case
  proof (cases "nodes s (file_target d f)")
    case (Some n)
    then have here: "nodes s (file_target d f) \<noteq> None" by simp
    show ?thesis
      using create_files_skip[OF here] Cons.IH[OF Cons.prems] by (cases "nodes s0 (file_target d f)") simp_all
  next
    case None
    then have n0: "nodes s0 (file_target d f) = None" using Cons.prems by blast
    obtain r1 s1 where o: "open_w_path (file_target d f) s = (r1, s1)"
      by (cases "open_w_path (file_target d f) s")
    show ?thesis
    proof (cases r1)
      case (Some e)
      then show ?thesis using create_files_fail[OF None o[unfolded Some]] n0 by simp
    next
      case r1: None
      have "\<forall>p. nodes s0 p \<noteq> None \<longrightarrow> nodes s1 p \<noteq> None"
        using Cons.prems grows_exists[OF open_grows[OF o None]] by blast
      note ih = Cons.IH[OF this]
      obtain r2 s2 out2 where a: "create_files d (os_path_join base_dir d) fs s1 = (r2, s2, out2)"
        by (cases "create_files d (os_path_join base_dir d) fs s1")
      show ?thesis
        using create_files_make[OF None o[unfolded r1] a]
          create_files_make[OF None o[unfolded r1] a[folded ih]] n0 by simp
    qed
  qed
qed

lemma create_files_drop:
  assumes "nodes s (file_target d f) \<noteq> None"
  shows "create_files d (os_path_join base_dir d) (xs @ f # ys) s =
         create_files d (os_path_join base_dir d) (xs @ ys) s"
proof -
  let ?keep = "\<lambda>f. nodes s (file_target d f) = None"
  have "filter ?keep (xs @ f # ys) = filter ?keep (xs @ ys)" using assms by simp
  then show ?thesis
    using create_files_filter[of s s d "xs @ f # ys"] create_files_filter[of s s d "xs @ ys"] by simp
qed

lemma create_entry_drop:
  assumes "nodes s (file_target d f) \<noteq> None"
  shows "create_entry (d, xs @ f # ys) s = create_entry (d, xs @ ys) s"
proof (cases "nodes s (dir_target d)")
  case (Some n)
  then have "nodes s (dir_target d) \<noteq> None" by simp
  then show ?thesis using create_entry_present[of s d] create_files_drop[OF assms] by simp
next
  case None
  obtain r1 s1 where o: "makedirs (dir_target d) s = (r1, s1)" by (cases "makedirs (dir_target d) s")
  show ?thesis
  proof (cases r1)
    case (Some e)
    then show ?thesis using create_entry_fail[OF None o[unfolded Some]] by simp
  next
    case r1: None
    have here: "nodes s1 (file_target d f) \<noteq> None"
      using grows_exists[OF makedirs_grows[OF o] assms] .
    obtain r2 s2 out2 where a: "create_files d (os_path_join base_dir d) (xs @ ys) s1 = (r2, s2, out2)"
      by (cases "create_files d (os_path_join base_dir d) (xs @ ys) s1")
    have b: "create_files d (os_path_join base_dir d) (xs @ f # ys) s1 = (r2, s2, out2)"
      using create_files_drop[OF here] a by simp
    show ?thesis
      using create_entry_make[OF None o[unfolded r1] a] create_entry_make[OF None o[unfolded r1] b]
      by simp
  qed
qed

section \<open>Running the script twice\<close>

lemma create_structure_cases:
  assumes "create_structure s = (r, s', out)"
  obtains
    (fail) e where "walk directories s = (Some e, s', out)" "r = Some e"
  | (finish) out1 where "walk directories s = (None, s', out1)" "r = None"
      "out = out1 @ [''Successfully extended project structure.'']"
proof -
  obtain r1 s1 out1 where w: "walk directories s = (r1, s1, out1)"
    by (cases "walk directories s")
  show ?thesis
  proof (cases r1)
    case None
    then show ?thesis using assms w finish by (auto simp: create_structure_def)
  next
    case (Some e)
    then show ?thesis using assms w fail by (auto simp: create_structure_def)
  qed
qed

text \<open>
  Claim C1.  Running the script a second time, on the state the first run left, leaves
  that state as it is and ends as the first run ended.  The second run prints no
  creation line: its output is the completion line alone when the runs succeed, and
  nothing when they fail.
\<close>

theorem create_structure_idempotent:
  "create_structure s = (r, s', out) \<Longrightarrow>
     create_structure s' =
       (r, s', if r = None then [''Successfully extended project structure.''] else [])"
proof -
  assume run: "create_structure s = (r, s', out)"
  from run show ?thesis
  proof (cases rule: create_structure_cases)
  case (fail e)
  then show ?thesis using walk_again[OF fail(1)] by (simp add: create_structure_def)
next
  case (finish out1)
  then show ?thesis using walk_again[OF finish(1)] by (simp add: create_structure_def)
  qed
qed

section \<open>The lines of what a run has made\<close>

lemma made_file_lines_same:
  "\<forall>f \<in> set fs. made a a' (file_target d f) = made b b' (file_target d f) \<Longrightarrow>
     made_file_lines a a' d fs = made_file_lines b b' d fs"
  unfolding made_file_lines_def by (induction fs) auto

lemma made_entry_lines_same:
  assumes "made a a' (dir_target (fst entry)) = made b b' (dir_target (fst entry))"
    and "\<forall>f \<in> set (snd entry). made a a' (file_target (fst entry) f) = made b b' (file_target (fst entry) f)"
  shows "made_entry_lines a a' entry = made_entry_lines b b' entry"
  using assms made_file_lines_same[OF assms(2)] by (simp add: made_entry_lines_def)

lemma made_file_lines_none:
  "\<forall>f \<in> set fs. \<not> made s s' (file_target d f) \<Longrightarrow> made_file_lines s s' d fs = []"
  unfolding made_file_lines_def by (induction fs) auto

lemma create_files_made:
  "distinct (map (file_target d) fs) \<Longrightarrow>
   create_files d (os_path_join base_dir d) fs s = (r, s', out) \<Longrightarrow>
     out = made_file_lines s s' d fs"
proof (induction fs arbitrary: s out)
  case Nil
  then show ?case by (simp add: made_file_lines_def)
next
  case (Cons f fs)
  have d: "distinct (map (file_target d) fs)" using Cons.prems(1) by simp
  from Cons.prems(2) show ?case
  proof (cases rule: create_files_cases)
    case skip
    have "made_file_lines s s' d (f # fs) = made_file_lines s s' d fs"
      using skip(1) by (simp add: made_file_lines_def made_def)
    then show ?thesis using Cons.IH[OF d skip(2)] by simp
  next
    case (fail e)
    have "s' = s" using open_fails[OF fail(2)] .
    then have "made_file_lines s s' d (f # fs) = []"
      by (intro made_file_lines_none) (auto simp: made_def)
    then show ?thesis using fail(4) by simp
  next
    case (make s1 out1)
    have n1: "nodes s1 = (nodes s)(file_target d f \<mapsto> File [])"
      using open_ok(3)[OF make(2) make(1)] .
    have "nodes s1 (file_target d f) \<noteq> None" using n1 by simp
    then have here: "nodes s' (file_target d f) \<noteq> None"
      using grows_exists[OF create_files_grows[OF make(3)]] by blast
    have "file_target d f \<notin> file_target d ` set fs" using Cons.prems(1) by simp
    then have "\<forall>g \<in> set fs. file_target d g \<noteq> file_target d f" by (metis imageI)
    then have "\<forall>g \<in> set fs. made s1 s' (file_target d g) = made s s' (file_target d g)"
      using n1 by (simp add: made_def)
    then have same: "made_file_lines s1 s' d fs = made_file_lines s s' d fs"
      by (rule made_file_lines_same)
    have "made_file_lines s s' d (f # fs) =
        (''Created file: '' @ d @ ''/'' @ f) # made_file_lines s s' d fs"
      using make(1) here by (simp add: made_file_lines_def made_def)
    then show ?thesis using Cons.IH[OF d make(3)] same make(4) by simp
  qed
qed

lemma create_entry_made:
  assumes "distinct (map (file_target (fst entry)) (snd entry))"
    and "\<forall>f \<in> set (snd entry). file_target (fst entry) f \<notin> entry_dirs entry"
    and "create_entry entry s = (r, s', out)"
  shows "out = made_entry_lines s s' entry"
proof -
  obtain d fs where e: "entry = (d, fs)" by (cases entry)
  have di: "distinct (map (file_target d) fs)" using assms(1) e by simp
  have out: "\<forall>f \<in> set fs. \<not> prefix (file_target d f) (dir_target d)"
    using assms(2) e by (simp add: entry_dirs_def in_set_prefixes)
  from assms(3)[unfolded e] show ?thesis
  proof (cases rule: create_entry_cases)
    case present
    then show ?thesis using create_files_made[OF di present(2)]
      by (auto simp: made_entry_lines_def made_def e)
  next
    case (fail x)
    have "nodes s' (dir_target d) = None" using makedirs_fails_target[OF fail(2)] fail(1) by simp
    then have nd: "\<not> made s s' (dir_target d)" by (simp add: made_def)
    have "\<forall>f \<in> set fs. nodes s' (file_target d f) = nodes s (file_target d f)"
      using grows_outside[OF makedirs_grows[OF fail(2)]] out by simp
    then have "\<forall>f \<in> set fs. \<not> made s s' (file_target d f)" by (auto simp: made_def)
    then have "made_file_lines s s' d fs = []" by (rule made_file_lines_none)
    then show ?thesis using nd fail(4) by (simp add: made_entry_lines_def e)
  next
    case (make s1 out1)
    have "nodes s1 (dir_target d) \<noteq> None" using makedirs_ok_exists[OF make(2)] .
    then have "nodes s' (dir_target d) \<noteq> None"
      using grows_exists[OF create_files_grows[OF make(3)]] by blast
    then have md: "made s s' (dir_target d)" using make(1) by (simp add: made_def)
    have "\<forall>f \<in> set fs. nodes s1 (file_target d f) = nodes s (file_target d f)"
      using grows_outside[OF makedirs_grows[OF make(2)]] out by simp
    then have "\<forall>f \<in> set fs. made s1 s' (file_target d f) = made s s' (file_target d f)"
      by (simp add: made_def)
    then have "made_file_lines s1 s' d fs = made_file_lines s s' d fs"
      by (rule made_file_lines_same)
    then show ?thesis using create_files_made[OF di make(3)] md make(4)
      by (simp add: made_entry_lines_def e)
  qed
qed

lemma walk_made:
  "fresh entries \<Longrightarrow> walk entries s = (r, s', out) \<Longrightarrow> out = made_lines s s' entries"
proof (induction entries arbitrary: s out)
  case Nil
  then show ?case by (simp add: made_lines_def)
next
  case (Cons entry entries)
  have f1: "distinct (map (file_target (fst entry)) (snd entry))"
    and f2: "\<forall>f \<in> set (snd entry). file_target (fst entry) f \<notin> entry_dirs entry"
    and f3: "\<forall>later \<in> set entries.
         dir_target (fst later) \<notin> touched entry \<and>
         (\<forall>f \<in> set (snd later). file_target (fst later) f \<notin> touched entry)"
    and f4: "fresh entries" using Cons.prems(1) by simp_all
  have ex: "made_lines s s' (entry # entries) = made_entry_lines s s' entry @ made_lines s s' entries"
    by (simp add: made_lines_def)
  from Cons.prems(2) show ?case
  proof (cases rule: walk_cases)
    case (fail e)
    have g: "grows (entry_dirs entry) (entry_files entry) s s'" using create_entry_grows[OF fail(1)] .
    have "made_entry_lines s s' later = []" if l: "later \<in> set entries" for later
    proof -
      have a: "nodes s' (dir_target (fst later)) = nodes s (dir_target (fst later))"
        using grows_outside[OF g] f3 l by (simp add: touched_def)
      have "\<forall>f \<in> set (snd later). nodes s' (file_target (fst later) f) = nodes s (file_target (fst later) f)"
        using grows_outside[OF g] f3 l by (simp add: touched_def)
      then have "\<forall>f \<in> set (snd later). \<not> made s s' (file_target (fst later) f)"
        by (auto simp: made_def)
      then have "made_file_lines s s' (fst later) (snd later) = []" by (rule made_file_lines_none)
      then show ?thesis using a by (auto simp: made_entry_lines_def made_def)
    qed
    then have "made_lines s s' entries = []" by (simp add: made_lines_def)
    then show ?thesis using create_entry_made[OF f1 f2 fail(1)] ex by simp
  next
    case (step s1 out1 out2)
    have g: "grows (entry_dirs entry) (entry_files entry) s s1" using create_entry_grows[OF step(1)] .
    have g2: "grows (spec_dirs entries) (spec_files entries) s1 s'" using walk_grows[OF step(2)] .
    have dn: "entry_done entry s1" using create_entry_ok[OF step(1)] .
    have o1: "out1 = made_entry_lines s s1 entry" using create_entry_made[OF f1 f2 step(1)] .
    have "made s s1 (dir_target (fst entry)) = made s s' (dir_target (fst entry))"
      using dn grows_exists[OF g2] by (auto simp: made_def entry_done_def)
    moreover have "\<forall>f \<in> set (snd entry).
        made s s1 (file_target (fst entry) f) = made s s' (file_target (fst entry) f)"
      using dn grows_exists[OF g2] by (auto simp: made_def entry_done_def)
    ultimately have e1: "made_entry_lines s s1 entry = made_entry_lines s s' entry"
      by (rule made_entry_lines_same)
    have "made_entry_lines s1 s' later = made_entry_lines s s' later" if l: "later \<in> set entries" for later
    proof (rule made_entry_lines_same)
      show "made s1 s' (dir_target (fst later)) = made s s' (dir_target (fst later))"
        using grows_outside[OF g] f3 l by (simp add: touched_def made_def)
      show "\<forall>f \<in> set (snd later).
          made s1 s' (file_target (fst later) f) = made s s' (file_target (fst later) f)"
        using grows_outside[OF g] f3 l by (simp add: touched_def made_def)
    qed
    then have "made_lines s1 s' entries = made_lines s s' entries"
      by (simp add: made_lines_def cong: map_cong)
    then show ?thesis using Cons.IH[OF f4 step(2)] o1 e1 step(3) ex by simp
  qed
qed

section \<open>The lines of a rearranged walk\<close>

lemma agrees_start: "agrees s {} s"
  by (simp add: agrees_def missing_def)

lemma agrees_add:
  assumes "agrees s seen t" "nodes t p \<noteq> None"
  shows "agrees s (insert p seen) t"
  unfolding agrees_def
proof
  fix q show "(nodes t q = None) = missing s (insert p seen) q"
    using assms by (cases "q = p") (auto simp: agrees_def missing_def)
qed

lemma agrees_put:
  assumes "agrees s seen t" "nodes t' = (nodes t)(p \<mapsto> n)"
  shows "agrees s (insert p seen) t'"
  unfolding agrees_def
proof
  fix q show "(nodes t' q = None) = missing s (insert p seen) q"
    using assms by (cases "q = p") (auto simp: agrees_def missing_def)
qed

lemma create_files_walked:
  "agrees s seen t \<Longrightarrow> create_files d (os_path_join base_dir d) fs t = (None, t', out) \<Longrightarrow>
     out = walked_files s seen d fs \<and> agrees s (seen \<union> set (map (file_target d) fs)) t'"
proof (induction fs arbitrary: t seen out)
  case Nil
  then show ?case by simp
next
  case (Cons f fs)
  have un: "insert (file_target d f) seen \<union> set (map (file_target d) fs) =
      seen \<union> set (map (file_target d) (f # fs))" by auto
  from Cons.prems(2) show ?case
  proof (cases rule: create_files_cases)
    case skip
    have nm: "\<not> missing s seen (file_target d f)"
      using Cons.prems(1) skip(1) by (auto simp: agrees_def)
    have "agrees s (insert (file_target d f) seen) t" using agrees_add[OF Cons.prems(1) skip(1)] .
    from Cons.IH[OF this skip(2)] show ?thesis using nm un by simp
  next
    case (fail e)
    then show ?thesis by simp
  next
    case (make s1 out1)
    have m: "missing s seen (file_target d f)"
      using Cons.prems(1) make(1) by (auto simp: agrees_def)
    have "agrees s (insert (file_target d f) seen) s1"
      using agrees_put[OF Cons.prems(1) open_ok(3)[OF make(2) make(1)]] .
    from Cons.IH[OF this make(3)] show ?thesis using m un make(4) by simp
  qed
qed

lemma agrees_dirs:
  assumes "agrees s seen t" "grows {q. prefix q p} {} t t1"
    and "\<forall>q. prefix q p \<longrightarrow> nodes t1 q \<noteq> None"
  shows "agrees s (seen \<union> set (prefixes p)) t1"
  unfolding agrees_def
proof
  fix q show "(nodes t1 q = None) = missing s (seen \<union> set (prefixes p)) q"
  proof (cases "prefix q p")
    case True
    then show ?thesis using assms(3) by (auto simp: missing_def in_set_prefixes)
  next
    case False
    then have "nodes t1 q = nodes t q" using grows_outside[OF assms(2), of q] by simp
    then show ?thesis using assms(1) False by (auto simp: agrees_def missing_def in_set_prefixes)
  qed
qed

lemma create_entry_walked:
  assumes "tree t" "agrees s seen t" "create_entry entry t = (None, t', out)"
  shows "out =
      (if missing s seen (dir_target (fst entry)) then [''Created directory: '' @ fst entry] else [])
      @ walked_files s (seen \<union> entry_dirs entry) (fst entry) (snd entry)"
    and "agrees s (seen \<union> touched entry) t'"
proof -
  obtain d fs where e: "entry = (d, fs)" by (cases entry)
  have tu: "seen \<union> touched entry = (seen \<union> entry_dirs entry) \<union> set (map (file_target d) fs)"
    by (auto simp: touched_def entry_files_def e)
  have both: "out =
      (if missing s seen (dir_target d) then [''Created directory: '' @ d] else [])
      @ walked_files s (seen \<union> entry_dirs entry) d fs \<and>
      agrees s ((seen \<union> entry_dirs entry) \<union> set (map (file_target d) fs)) t'"
    using assms(3)[unfolded e]
  proof (cases rule: create_entry_cases)
    case present
    have nm: "\<not> missing s seen (dir_target d)"
      using assms(2) present(1) by (auto simp: agrees_def)
    have "\<forall>q. prefix q (dir_target d) \<longrightarrow> nodes t q \<noteq> None"
      using tree_prefix[OF assms(1) present(1)] by blast
    then have "agrees s (seen \<union> entry_dirs entry) t"
      using agrees_dirs[OF assms(2) grows_refl] by (simp add: entry_dirs_def e)
    from create_files_walked[OF this present(2)] show ?thesis using nm by simp
  next
    case (fail x)
    then show ?thesis by simp
  next
    case (make t1 out1)
    have m: "missing s seen (dir_target d)"
      using assms(2) make(1) by (auto simp: agrees_def)
    have g: "grows {q. prefix q (dir_target d)} {} t t1" using makedirs_grows[OF make(2)] .
    have "tree t1" using tree_grows[OF assms(1) g] .
    then have "\<forall>q. prefix q (dir_target d) \<longrightarrow> nodes t1 q \<noteq> None"
      using tree_prefix makedirs_ok_exists[OF make(2)] by blast
    then have "agrees s (seen \<union> entry_dirs entry) t1"
      using agrees_dirs[OF assms(2) g] by (simp add: entry_dirs_def e)
    from create_files_walked[OF this make(3)] show ?thesis using m make(4) by simp
  qed
  show "out =
      (if missing s seen (dir_target (fst entry)) then [''Created directory: '' @ fst entry] else [])
      @ walked_files s (seen \<union> entry_dirs entry) (fst entry) (snd entry)"
    using both e by simp
  show "agrees s (seen \<union> touched entry) t'" using both tu by simp
qed

lemma walk_walked:
  "tree t \<Longrightarrow> agrees s seen t \<Longrightarrow> walk entries t = (None, t', out) \<Longrightarrow>
     out = walked_lines s seen entries"
proof (induction entries arbitrary: t seen out)
  case Nil
  then show ?case by simp
next
  case (Cons entry entries)
  from Cons.prems(3) show ?case
  proof (cases rule: walk_cases)
    case (fail e)
    then show ?thesis by simp
  next
    case (step t1 out1 out2)
    note w = create_entry_walked[OF Cons.prems(1,2) step(1)]
    have "tree t1" using tree_grows[OF Cons.prems(1) create_entry_grows[OF step(1)]] .
    from Cons.IH[OF this w(2) step(2)] show ?thesis using w(1) step(3) by simp
  qed
qed

lemma walked_files_subseq:
  "subseq (walked_files s seen d fs) (map (\<lambda>file. ''Created file: '' @ d @ ''/'' @ file) fs)"
  by (induction fs arbitrary: seen) auto

lemma walked_lines_subseq: "subseq (walked_lines s seen entries) (all_lines entries)"
proof (induction entries arbitrary: seen)
  case Nil
  then show ?case by (simp add: all_lines_def)
next
  case (Cons entry entries)
  obtain d fs where e: "entry = (d, fs)" by (cases entry)
  have a: "all_lines (entry # entries) =
      ((''Created directory: '' @ d) # map (\<lambda>file. ''Created file: '' @ d @ ''/'' @ file) fs)
      @ all_lines entries" by (simp add: all_lines_def e)
  have b: "subseq
      ((if missing s seen (dir_target d) then [''Created directory: '' @ d] else [])
       @ walked_files s (seen \<union> entry_dirs entry) d fs)
      ((''Created directory: '' @ d) # map (\<lambda>file. ''Created file: '' @ d @ ''/'' @ file) fs)"
    using walked_files_subseq[of s "seen \<union> entry_dirs entry" d fs] by auto
  have l: "walked_lines s seen (entry # entries) =
      ((if missing s seen (dir_target d) then [''Created directory: '' @ d] else [])
       @ walked_files s (seen \<union> entry_dirs entry) d fs)
      @ walked_lines s (seen \<union> touched entry) entries" by (simp add: e)
  show ?case unfolding l a using b Cons.IH by (rule list_emb_append_mono)
qed

section \<open>What a run leaves and prints\<close>

lemma tree_map_of:
  assumes "\<forall>(p, n) \<in> set kvs. p \<noteq> [] \<longrightarrow> (\<exists>w. map_of kvs (butlast p) = Some (Dir w))"
  shows "tree \<lparr>nodes = map_of kvs, free = k, new_dir_writable = w\<rparr>"
  unfolding tree_def
proof (intro allI impI)
  fix p assume p: "p \<noteq> []"
    "nodes \<lparr>nodes = map_of kvs, free = k, new_dir_writable = w\<rparr> p \<noteq> None"
  then obtain n where "map_of kvs p = Some n" by auto
  then have "(p, n) \<in> set kvs" by (rule map_of_SomeD)
  then show "\<exists>v. nodes \<lparr>nodes = map_of kvs, free = k, new_dir_writable = w\<rparr> (butlast p) =
      Some (Dir v)"
    using assms p(1) by auto
qed

lemma dir_targets:
  "dir_target ''public/fonts'' = [''public'', ''fonts'']"
  "dir_target ''public/icons'' = [''public'', ''icons'']"
  "dir_target ''public/presets'' = [''public'', ''presets'']"
  "dir_target ''app/api/export'' = [''app'', ''api'', ''export'']"
  "dir_target ''app/api/presets'' = [''app'', ''api'', ''presets'']"
  "dir_target ''components/ui'' = [''components'', ''ui'']"
  "dir_target ''components/layout'' = [''components'', ''layout'']"
  "dir_target ''components/audio'' = [''components'', ''audio'']"
  "dir_target ''components/modals'' = [''components'', ''modals'']"
  "dir_target ''components/controls'' = [''components'', ''controls'']"
  "dir_target ''lib/audio'' = [''lib'', ''audio'']"
  "dir_target ''lib/hooks'' = [''lib'', ''hooks'']"
  "dir_target ''lib/utils'' = [''lib'', ''utils'']"
  "dir_target ''types'' = [''types'']"
  "dir_target ''store'' = [''store'']"
  "dir_target ''store/slices'' = [''store'', ''slices'']"
  by (simp_all add: dir_target_def resolve_def os_path_join_def base_dir_def)

lemma file_targets:
  "file_target ''app/api/export'' ''route.ts'' = [''app'', ''api'', ''export'', ''route.ts'']"
  "file_target ''app/api/presets'' ''route.ts'' = [''app'', ''api'', ''presets'', ''route.ts'']"
  "file_target ''components/ui'' ''Button.tsx'' = [''components'', ''ui'', ''Button.tsx'']"
  "file_target ''components/ui'' ''Slider.tsx'' = [''components'', ''ui'', ''Slider.tsx'']"
  "file_target ''components/ui'' ''Knob.tsx'' = [''components'', ''ui'', ''Knob.tsx'']"
  "file_target ''components/ui'' ''Switch.tsx'' = [''components'', ''ui'', ''Switch.tsx'']"
  "file_target ''components/ui'' ''Card.tsx'' = [''components'', ''ui'', ''Card.tsx'']"
  "file_target ''components/ui'' ''Modal.tsx'' = [''components'', ''ui'', ''Modal.tsx'']"
  "file_target ''components/ui'' ''Tabs.tsx'' = [''components'', ''ui'', ''Tabs.tsx'']"
  "file_target ''components/ui'' ''Dropdown.tsx'' = [''components'', ''ui'', ''Dropdown.tsx'']"
  "file_target ''components/ui'' ''Tooltip.tsx'' = [''components'', ''ui'', ''Tooltip.tsx'']"
  "file_target ''components/layout'' ''Header.tsx'' = [''components'', ''layout'', ''Header.tsx'']"
  "file_target ''components/layout'' ''Footer.tsx'' = [''components'', ''layout'', ''Footer.tsx'']"
  "file_target ''components/layout'' ''Sidebar.tsx'' = [''components'', ''layout'', ''Sidebar.tsx'']"
  "file_target ''components/audio'' ''SoundGrid.tsx'' = [''components'', ''audio'', ''SoundGrid.tsx'']"
  "file_target ''components/audio'' ''SoundCard.tsx'' = [''components'', ''audio'', ''SoundCard.tsx'']"
  "file_target ''components/audio'' ''Timeline.tsx'' = [''components'', ''audio'', ''Timeline.tsx'']"
  "file_target ''components/audio'' ''Track.tsx'' = [''components'', ''audio'', ''Track.tsx'']"
  "file_target ''components/audio'' ''TrackControls.tsx'' = [''components'', ''audio'', ''TrackControls.tsx'']"
  "file_target ''components/audio'' ''TimelineControls.tsx'' = [''components'', ''audio'', ''TimelineControls.tsx'']"
  "file_target ''components/audio'' ''Waveform.tsx'' = [''components'', ''audio'', ''Waveform.tsx'']"
  "file_target ''components/audio'' ''Spectrum.tsx'' = [''components'', ''audio'', ''Spectrum.tsx'']"
  "file_target ''components/modals'' ''SoundEditor.tsx'' = [''components'', ''modals'', ''SoundEditor.tsx'']"
  "file_target ''components/modals'' ''ExportModal.tsx'' = [''components'', ''modals'', ''ExportModal.tsx'']"
  "file_target ''components/modals'' ''PresetModal.tsx'' = [''components'', ''modals'', ''PresetModal.tsx'']"
  "file_target ''components/controls'' ''VolumeControl.tsx'' = [''components'', ''controls'', ''VolumeControl.tsx'']"
  "file_target ''components/controls'' ''PanControl.tsx'' = [''components'', ''controls'', ''PanControl.tsx'']"
  "file_target ''components/controls'' ''PitchControl.tsx'' = [''components'', ''controls'', ''PitchControl.tsx'']"
  "file_target ''components/controls'' ''FilterControls.tsx'' = [''components'', ''controls'', ''FilterControls.tsx'']"
  "file_target ''components/controls'' ''EnvelopeControls.tsx'' = [''components'', ''controls'', ''EnvelopeControls.tsx'']"
  "file_target ''components/controls'' ''LFOControls.tsx'' = [''components'', ''controls'', ''LFOControls.tsx'']"
  "file_target ''components/controls'' ''EffectsControls.tsx'' = [''components'', ''controls'', ''EffectsControls.tsx'']"
  "file_target ''components/controls'' ''EQControls.tsx'' = [''components'', ''controls'', ''EQControls.tsx'']"
  "file_target ''components/controls'' ''DynamicsControls.tsx'' = [''components'', ''controls'', ''DynamicsControls.tsx'']"
  "file_target ''components/controls'' ''SpatialControls.tsx'' = [''components'', ''controls'', ''SpatialControls.tsx'']"
  "file_target ''lib/audio'' ''audioContext.ts'' = [''lib'', ''audio'', ''audioContext.ts'']"
  "file_target ''lib/audio'' ''generators.ts'' = [''lib'', ''audio'', ''generators.ts'']"
  "file_target ''lib/audio'' ''processors.ts'' = [''lib'', ''audio'', ''processors.ts'']"
  "file_target ''lib/audio'' ''effects.ts'' = [''lib'', ''audio'', ''effects.ts'']"
  "file_target ''lib/audio'' ''exporters.ts'' = [''lib'', ''audio'', ''exporters.ts'']"
  "file_target ''lib/hooks'' ''useAudioNode.ts'' = [''lib'', ''hooks'', ''useAudioNode.ts'']"
  "file_target ''lib/hooks'' ''useTimeline.ts'' = [''lib'', ''hooks'', ''useTimeline.ts'']"
  "file_target ''lib/hooks'' ''usePresets.ts'' = [''lib'', ''hooks'', ''usePresets.ts'']"
  "file_target ''lib/hooks'' ''useDragResize.ts'' = [''lib'', ''hooks'', ''useDragResize.ts'']"
  "file_target ''lib/utils'' ''animations.ts'' = [''lib'', ''utils'', ''animations.ts'']"
  "file_target ''lib/utils'' ''storage.ts'' = [''lib'', ''utils'', ''storage.ts'']"
  "file_target ''lib/utils'' ''format.ts'' = [''lib'', ''utils'', ''format.ts'']"
  "file_target ''types'' ''audio.ts'' = [''types'', ''audio.ts'']"
  "file_target ''types'' ''preset.ts'' = [''types'', ''preset.ts'']"
  "file_target ''types'' ''ui.ts'' = [''types'', ''ui.ts'']"
  "file_target ''store'' ''index.ts'' = [''store'', ''index.ts'']"
  "file_target ''store/slices'' ''timelineSlice.ts'' = [''store'', ''slices'', ''timelineSlice.ts'']"
  "file_target ''store/slices'' ''soundsSlice.ts'' = [''store'', ''slices'', ''soundsSlice.ts'']"
  "file_target ''store/slices'' ''uiSlice.ts'' = [''store'', ''slices'', ''uiSlice.ts'']"
  by (simp_all add: file_target_def resolve_def os_path_join_def base_dir_def)

lemma plain_names_directories: "plain_names directories"
  by (simp add: plain_names_def directories_def dir_targets file_targets)

lemma no_clash_directories: "no_clash directories"
  by code_simp

lemma fresh_directories: "fresh directories"
  by code_simp

lemma empty_cwd_walk:
  "case walk directories empty_cwd of (r, s', out) \<Rightarrow>
     r = None \<and> nodes s' [''out''] = None \<and>
     list_all (\<lambda>p. nodes empty_cwd p = None \<and> nodes s' p = Some (Dir True)) made_dirs \<and>
     length (filter is_directory_line out) = 16"
  by code_simp

lemma empty_cwd_facts:
  "nodes (fst (snd (walk directories empty_cwd))) [''out''] = None"
  "list_all (\<lambda>p. nodes empty_cwd p = None \<and>
      nodes (fst (snd (walk directories empty_cwd))) p = Some (Dir True)) made_dirs"
  "length (filter is_directory_line (snd (snd (walk directories empty_cwd)))) = 16"
  using empty_cwd_walk by (cases "walk directories empty_cwd"; simp)+

lemma empty_cwd_run: "fst (walk directories empty_cwd) = None"
  using empty_cwd_walk by (cases "walk directories empty_cwd") simp

lemma occupied_cwd_run: "fst (walk directories occupied_cwd) = None"
  by code_simp

lemma walk_result: "walk entries s = (fst (walk entries s), fst (snd (walk entries s)), snd (snd (walk entries s)))"
  by simp

lemma create_structure_fst: "fst (create_structure s) = fst (walk directories s)"
  by (cases "walk directories s"; cases "fst (walk directories s)") (simp_all add: create_structure_def)

lemma create_structure_state: "fst (snd (create_structure s)) = fst (snd (walk directories s))"
  by (cases "walk directories s"; cases "fst (walk directories s)") (simp_all add: create_structure_def)

lemma create_structure_ok:
  "fst (walk directories s) = None \<Longrightarrow>
     create_structure s =
       (None, fst (snd (walk directories s)),
        snd (snd (walk directories s)) @ [''Successfully extended project structure.''])"
  by (cases "walk directories s") (simp add: create_structure_def)

lemma tree_empty_cwd: "tree empty_cwd"
  unfolding empty_cwd_def by (rule tree_map_of) auto


theorem create_structure_idempotent_witness:
  "create_structure (fst (snd (create_structure empty_cwd))) =
     (None, fst (snd (create_structure empty_cwd)), [''Successfully extended project structure.''])"
  using create_structure_idempotent [OF create_structure_ok [OF empty_cwd_run]]
    create_structure_ok [OF empty_cwd_run] by simp

text \<open>
  Claim C2 as the script has it.  After a run that ends without an exception, every
  directory path of the table holds what it held before the run, or a new directory
  when it held nothing; every file path of the table holds what it held before the run,
  or a new empty file when it held nothing; and every regular file that was not there
  before the run is empty.
\<close>

theorem successful_run_completes:
  assumes "create_structure s = (None, s', out)"
  shows "(\<forall>(d, files) \<in> set directories.
            (case nodes s (dir_target d) of
               None \<Rightarrow> (\<exists>w. nodes s' (dir_target d) = Some (Dir w))
             | Some n \<Rightarrow> nodes s' (dir_target d) = Some n) \<and>
            (\<forall>f \<in> set files.
               nodes s' (file_target d f) =
                 (case nodes s (file_target d f) of None \<Rightarrow> Some (File []) | Some n \<Rightarrow> Some n)))
       \<and> (\<forall>p c. nodes s p = None \<longrightarrow> nodes s' p = Some (File c) \<longrightarrow> c = [])"
proof -
  from assms obtain out1 where run: "walk directories s = (None, s', out1)"
    by (cases rule: create_structure_cases) auto
  let ?D = "spec_dirs directories" and ?F = "spec_files directories"
  have g: "grows ?D ?F s s'" using walk_grows[OF run] .
  have dj: "?F \<inter> ?D = {}" using no_clash_directories by (simp add: no_clash_def)
  have dirs: "case nodes s (dir_target d) of
               None \<Rightarrow> (\<exists>w. nodes s' (dir_target d) = Some (Dir w))
             | Some n \<Rightarrow> nodes s' (dir_target d) = Some n"
    if e: "(d, files) \<in> set directories" for d files
  proof (cases "nodes s (dir_target d)")
    case (Some n)
    then show ?thesis using grows_keeps[OF g] by simp
  next
    case None
    have "nodes s' (dir_target d) \<noteq> None" using walk_ok[OF run e] by (simp add: entry_done_def)
    then obtain n where n: "nodes s' (dir_target d) = Some n" by auto
    have "dir_target d \<in> ?D" using e by (force simp: spec_dirs_def entry_dirs_def)
    then have "dir_target d \<notin> ?F" using dj by blast
    then have "n = Dir (new_dir_writable s)" using grows_new[OF g None n] by blast
    then show ?thesis using None n by simp
  qed
  have files: "nodes s' (file_target d f) =
      (case nodes s (file_target d f) of None \<Rightarrow> Some (File []) | Some n \<Rightarrow> Some n)"
    if e: "(d, files) \<in> set directories" and f: "f \<in> set files" for d files f
  proof (cases "nodes s (file_target d f)")
    case (Some n)
    then show ?thesis using grows_keeps[OF g] by simp
  next
    case None
    have "nodes s' (file_target d f) \<noteq> None" using walk_ok[OF run e] f by (simp add: entry_done_def)
    then obtain n where n: "nodes s' (file_target d f) = Some n" by auto
    have "file_target d f \<in> ?F" using e f by (force simp: spec_files_def entry_files_def)
    then have "file_target d f \<notin> ?D" using dj by blast
    then have "n = File []" using grows_new[OF g None n] by blast
    then show ?thesis using None n by simp
  qed
  have new: "c = []" if "nodes s p = None" "nodes s' p = Some (File c)" for p c
    using grows_new[OF g that] by auto
  show ?thesis using dirs files new by blast
qed

theorem successful_run_completes_witness:
  "(\<exists>w. nodes (fst (snd (create_structure empty_cwd))) (dir_target ''store'') = Some (Dir w)) \<and>
   nodes (fst (snd (create_structure empty_cwd))) (file_target ''store'' ''index.ts'') = Some (File [])"
proof -
  have e: "(''store'', [''index.ts'']) \<in> set directories" by (simp add: directories_def)
  have a: "nodes empty_cwd (dir_target ''store'') = None"
    and b: "nodes empty_cwd (file_target ''store'' ''index.ts'') = None"
    by (simp_all add: empty_cwd_def dir_targets file_targets)
  note t = successful_run_completes [OF create_structure_ok [OF empty_cwd_run]]
  from t have "\<forall>(d, files) \<in> set directories.
      (case nodes empty_cwd (dir_target d) of
         None \<Rightarrow> (\<exists>w. nodes (fst (snd (walk directories empty_cwd))) (dir_target d) = Some (Dir w))
       | Some n \<Rightarrow> nodes (fst (snd (walk directories empty_cwd))) (dir_target d) = Some n) \<and>
      (\<forall>f \<in> set files.
         nodes (fst (snd (walk directories empty_cwd))) (file_target d f) =
           (case nodes empty_cwd (file_target d f) of None \<Rightarrow> Some (File []) | Some n \<Rightarrow> Some n))"
    by (rule conjunct1)
  from bspec [OF this e] show ?thesis using a b by (simp add: create_structure_state)
qed

text \<open>
  The claim as the specification words it fails where something that is not a directory
  already sits at a directory path of the table: with a regular file at
  \<^verbatim>\<open>public/fonts\<close> the run ends without an exception, and that path still holds
  the regular file.
\<close>

theorem directory_exists_counterexample:
  "(''public/fonts'', []) \<in> set directories \<and>
   fst (create_structure occupied_cwd) = None \<and>
   nodes (fst (snd (create_structure occupied_cwd))) (dir_target ''public/fonts'') =
     Some (File ''not a directory'')"
proof -
  have "nodes occupied_cwd (dir_target ''public/fonts'') = Some (File ''not a directory'')"
    by (simp add: occupied_cwd_def dir_targets)
  then have "nodes (fst (snd (walk directories occupied_cwd))) (dir_target ''public/fonts'') =
      Some (File ''not a directory'')"
    using grows_keeps[OF walk_grows[OF walk_result]] by blast
  then show ?thesis
    using occupied_cwd_run by (simp add: create_structure_fst create_structure_state directories_def)
qed

lemma walk_drop:
  assumes "nodes s (file_target d f) \<noteq> None"
  shows "walk (pre @ (d, before @ f # after) # post) s = walk (pre @ (d, before @ after) # post) s"
proof -
  obtain r1 s1 out1 where w: "walk pre s = (r1, s1, out1)" by (cases "walk pre s")
  show ?thesis
  proof (cases r1)
    case (Some e)
    then show ?thesis using w by (simp add: walk_append)
  next
    case None
    have "nodes s1 (file_target d f) \<noteq> None"
      using grows_exists[OF walk_grows[OF w] assms] .
    then have "create_entry (d, before @ f # after) s1 = create_entry (d, before @ after) s1"
      by (rule create_entry_drop)
    then show ?thesis using w None by (simp add: walk_append)
  qed
qed

lemma walk_new_files:
  assumes "walk directories s = (None, s', out)" "(d, files) \<in> set directories" "f \<in> set files"
    "nodes s (file_target d f) = None"
  shows "nodes s' (file_target d f) = Some (File [])"
proof -
  let ?D = "spec_dirs directories" and ?F = "spec_files directories"
  have g: "grows ?D ?F s s'" using walk_grows[OF assms(1)] .
  have dj: "?F \<inter> ?D = {}" using no_clash_directories by (simp add: no_clash_def)
  have "nodes s' (file_target d f) \<noteq> None"
    using walk_ok[OF assms(1,2)] assms(3) by (simp add: entry_done_def)
  then obtain n where n: "nodes s' (file_target d f) = Some n" by auto
  have "file_target d f \<in> ?F" using assms(2,3) by (force simp: spec_files_def entry_files_def)
  then have "file_target d f \<notin> ?D" using dj by blast
  then have "n = File []" using grows_new[OF g assms(4) n] by blast
  then show ?thesis using n by simp
qed

text \<open>
  Claim C3.  Whatever a run does and however it ends, every regular file that was there
  before it keeps its content.  A file of the table that already exists is passed over:
  the walk goes exactly as it would with that file taken out of the table, so the other
  files of the same directory are treated as if it were not listed.  When the run ends
  without an exception, every file of the table that was missing is there and empty.
\<close>

theorem existing_files_kept:
  assumes "create_structure s = (r, s', out)"
  shows "(\<forall>p c. nodes s p = Some (File c) \<longrightarrow> nodes s' p = Some (File c)) \<and>
         (\<forall>pre d before f after post.
            directories = pre @ (d, before @ f # after) # post \<longrightarrow>
            nodes s (file_target d f) \<noteq> None \<longrightarrow>
              walk directories s = walk (pre @ (d, before @ after) # post) s) \<and>
         (r = None \<longrightarrow>
            (\<forall>(d, files) \<in> set directories. \<forall>f \<in> set files.
               nodes s (file_target d f) = None \<longrightarrow> nodes s' (file_target d f) = Some (File [])))"
proof -
  obtain r1 out1 where run: "walk directories s = (r1, s', out1)" and r1: "(r1 = None) = (r = None)"
    using assms by (cases rule: create_structure_cases) auto
  have a: "\<forall>p c. nodes s p = Some (File c) \<longrightarrow> nodes s' p = Some (File c)"
    using grows_keeps[OF walk_grows[OF run]] by blast
  have b: "\<forall>pre d before f after post.
            directories = pre @ (d, before @ f # after) # post \<longrightarrow>
            nodes s (file_target d f) \<noteq> None \<longrightarrow>
              walk directories s = walk (pre @ (d, before @ after) # post) s"
    using walk_drop by metis
  have c: "nodes s' (file_target d f) = Some (File [])"
    if "r = None" "(d, files) \<in> set directories" "f \<in> set files" "nodes s (file_target d f) = None"
    for d files f
    using walk_new_files[OF _ that(2,3,4)] run r1 that(1) by simp
  show ?thesis using a b c by blast
qed

theorem existing_files_kept_witness:
  "nodes (fst (snd (create_structure occupied_cwd))) [''components'', ''ui'', ''Button.tsx''] =
     Some (File old_content) \<and>
   walk directories occupied_cwd =
     walk (take 5 directories @
           (''components/ui'',
              [''Slider.tsx'', ''Knob.tsx'', ''Switch.tsx'', ''Card.tsx'', ''Modal.tsx'',
               ''Tabs.tsx'', ''Dropdown.tsx'', ''Tooltip.tsx'']) # drop 6 directories) occupied_cwd \<and>
   nodes (fst (snd (create_structure occupied_cwd))) (file_target ''components/ui'' ''Slider.tsx'') =
     Some (File [])"
proof -
  note t = existing_files_kept [OF create_structure_ok [OF occupied_cwd_run]]
  have old: "nodes occupied_cwd [''components'', ''ui'', ''Button.tsx''] = Some (File old_content)"
    by (simp add: occupied_cwd_def)
  from t have "\<forall>p c. nodes occupied_cwd p = Some (File c) \<longrightarrow>
      nodes (fst (snd (walk directories occupied_cwd))) p = Some (File c)"
    by (rule conjunct1)
  from this [rule_format, OF old]
  have a: "nodes (fst (snd (walk directories occupied_cwd))) [''components'', ''ui'', ''Button.tsx''] =
      Some (File old_content)" .
  have split: "directories =
      take 5 directories @
      (''components/ui'',
         [] @ ''Button.tsx'' #
         [''Slider.tsx'', ''Knob.tsx'', ''Switch.tsx'', ''Card.tsx'', ''Modal.tsx'',
          ''Tabs.tsx'', ''Dropdown.tsx'', ''Tooltip.tsx'']) # drop 6 directories"
    by (simp add: directories_def)
  have here: "nodes occupied_cwd (file_target ''components/ui'' ''Button.tsx'') \<noteq> None"
    by (simp add: occupied_cwd_def file_targets)
  from t have "\<forall>pre d before f after post.
      directories = pre @ (d, before @ f # after) # post \<longrightarrow>
      nodes occupied_cwd (file_target d f) \<noteq> None \<longrightarrow>
        walk directories occupied_cwd = walk (pre @ (d, before @ after) # post) occupied_cwd"
    by (rule conjunct1 [OF conjunct2])
  from this [rule_format, OF split here]
  have b: "walk directories occupied_cwd =
     walk (take 5 directories @
           (''components/ui'',
              [''Slider.tsx'', ''Knob.tsx'', ''Switch.tsx'', ''Card.tsx'', ''Modal.tsx'',
               ''Tabs.tsx'', ''Dropdown.tsx'', ''Tooltip.tsx'']) # drop 6 directories) occupied_cwd"
    by simp
  have e: "(''components/ui'',
         [''Button.tsx'', ''Slider.tsx'', ''Knob.tsx'', ''Switch.tsx'', ''Card.tsx'', ''Modal.tsx'',
          ''Tabs.tsx'', ''Dropdown.tsx'', ''Tooltip.tsx'']) \<in> set directories"
    by (simp add: directories_def)
  have missing: "nodes occupied_cwd (file_target ''components/ui'' ''Slider.tsx'') = None"
    by (simp add: occupied_cwd_def file_targets)
  from t have "\<forall>(d, files) \<in> set directories. \<forall>f \<in> set files.
      nodes occupied_cwd (file_target d f) = None \<longrightarrow>
        nodes (fst (snd (walk directories occupied_cwd))) (file_target d f) = Some (File [])"
    using conjunct2 [OF conjunct2 [OF t]] by simp
  from bspec [OF this e] missing
  have c: "nodes (fst (snd (walk directories occupied_cwd))) (file_target ''components/ui'' ''Slider.tsx'') =
      Some (File [])"
    by simp
  show ?thesis using a b c by (simp add: create_structure_state)
qed




lemma walk_stops:
  assumes "walk before s = (None, s1, out1)" "create_entry entry s1 = (Some e, s2, out2)"
  shows "walk (before @ entry # after) s = (Some e, s2, out1 @ out2)"
  using assms by (simp add: walk_append)

lemma create_structure_fail:
  "walk directories s = (Some e, s', out) \<Longrightarrow> create_structure s = (Some e, s', out)"
  by (simp add: create_structure_def)

lemma main_fail:
  "create_structure s = (Some e, s', out) \<Longrightarrow>
     main argv s = \<lparr>exit_code = 1, final_fs = s', stdout = out, stderr = [e]\<rparr>"
  by (simp add: main_def)

lemma main_exit_code: "(exit_code (main argv s) = 0) = (fst (create_structure s) = None)"
proof -
  obtain r s' out where c: "create_structure s = (r, s', out)" by (cases "create_structure s")
  show ?thesis using c by (cases r) (simp_all add: main_def)
qed

text \<open>
  Claim C4.  Let the walk have passed the items before one item of the table without
  an exception.  If \<^verbatim>\<open>os.makedirs\<close> raises for that item, or if \<^verbatim>\<open>open\<close> raises
  for one of its files after the files before it went through, the run ends there: its
  result is that exception, its state is the state the failing call left, its output
  stops with the lines printed so far, and the process exits with status 1 and the
  exception on standard error.  Whatever existed or was made before stays as it was.
  The exit status is 0 exactly when no exception was raised.
\<close>

theorem error_ends_run:
  assumes "directories = before @ (d, files) # after"
    and "walk before s = (None, t, printed)"
  shows "(nodes t (dir_target d) = None \<and>
          os_makedirs (os_path_join base_dir d) t = (Some e, u) \<longrightarrow>
            create_structure s = (Some e, u, printed) \<and>
            main argv s = \<lparr>exit_code = 1, final_fs = u, stdout = printed, stderr = [e]\<rparr> \<and>
            (\<forall>p n. nodes t p = Some n \<longrightarrow> nodes u p = Some n))
       \<and> (files = fbefore @ f # fafter \<and>
          create_entry (d, fbefore) t = (None, u, printed') \<and>
          nodes u (file_target d f) = None \<and>
          open_w (os_path_join (os_path_join base_dir d) f) u = (Some e, v) \<longrightarrow>
            create_structure s = (Some e, v, printed @ printed') \<and>
            main argv s = \<lparr>exit_code = 1, final_fs = v, stdout = printed @ printed', stderr = [e]\<rparr> \<and>
            v = u \<and> (\<forall>p n. nodes t p = Some n \<longrightarrow> nodes v p = Some n))
       \<and> (\<forall>p n. nodes s p = Some n \<longrightarrow> nodes t p = Some n)
       \<and> ((exit_code (main argv s) = 0) = (fst (create_structure s) = None))"
proof -
  have dircase: "create_structure s = (Some e, u, printed) \<and>
      main argv s = \<lparr>exit_code = 1, final_fs = u, stdout = printed, stderr = [e]\<rparr> \<and>
      (\<forall>p n. nodes t p = Some n \<longrightarrow> nodes u p = Some n)"
    if a: "nodes t (dir_target d) = None"
      and b: "os_makedirs (os_path_join base_dir d) t = (Some e, u)"
  proof -
    have m: "makedirs (dir_target d) t = (Some e, u)"
      using b by (simp add: os_makedirs_def dir_target_def)
    have "create_entry (d, files) t = (Some e, u, [])" using create_entry_fail[OF a m] .
    from walk_stops[OF assms(2) this, of after]
    have "walk directories s = (Some e, u, printed)" using assms(1) by simp
    then have c: "create_structure s = (Some e, u, printed)" by (rule create_structure_fail)
    have "\<forall>p n. nodes t p = Some n \<longrightarrow> nodes u p = Some n"
      using grows_keeps[OF makedirs_grows[OF m]] by blast
    then show ?thesis using c main_fail[OF c] by simp
  qed
  have filecase: "create_structure s = (Some e, v, printed @ printed') \<and>
      main argv s = \<lparr>exit_code = 1, final_fs = v, stdout = printed @ printed', stderr = [e]\<rparr> \<and>
      v = u \<and> (\<forall>p n. nodes t p = Some n \<longrightarrow> nodes v p = Some n)"
    if a: "files = fbefore @ f # fafter"
      and b: "create_entry (d, fbefore) t = (None, u, printed')"
      and c: "nodes u (file_target d f) = None"
      and o: "open_w (os_path_join (os_path_join base_dir d) f) u = (Some e, v)"
  proof -
    have m: "open_w_path (file_target d f) u = (Some e, v)"
      using o by (simp add: open_w_def file_target_def)
    have same: "v = u" using open_fails[OF m] .
    have "create_files d (os_path_join base_dir d) (f # fafter) u = (Some e, v, [])"
      using create_files_fail[OF c m] .
    then have "create_entry (d, files) t = (Some e, v, printed')"
      using b a by (simp add: create_entry_append)
    from walk_stops[OF assms(2) this, of after]
    have "walk directories s = (Some e, v, printed @ printed')" using assms(1) by simp
    then have cs: "create_structure s = (Some e, v, printed @ printed')" by (rule create_structure_fail)
    have "\<forall>p n. nodes t p = Some n \<longrightarrow> nodes v p = Some n"
      using grows_keeps[OF create_entry_grows[OF b]] same by blast
    then show ?thesis using cs main_fail[OF cs] same by simp
  qed
  have keep: "\<forall>p n. nodes s p = Some n \<longrightarrow> nodes t p = Some n"
    using grows_keeps[OF walk_grows[OF assms(2)]] by blast
  have 1: "nodes t (dir_target d) = None \<and>
          os_makedirs (os_path_join base_dir d) t = (Some e, u) \<longrightarrow>
            create_structure s = (Some e, u, printed) \<and>
            main argv s = \<lparr>exit_code = 1, final_fs = u, stdout = printed, stderr = [e]\<rparr> \<and>
            (\<forall>p n. nodes t p = Some n \<longrightarrow> nodes u p = Some n)"
    using dircase by (intro impI) (elim conjE)
  have 2: "files = fbefore @ f # fafter \<and>
          create_entry (d, fbefore) t = (None, u, printed') \<and>
          nodes u (file_target d f) = None \<and>
          open_w (os_path_join (os_path_join base_dir d) f) u = (Some e, v) \<longrightarrow>
            create_structure s = (Some e, v, printed @ printed') \<and>
            main argv s = \<lparr>exit_code = 1, final_fs = v, stdout = printed @ printed', stderr = [e]\<rparr> \<and>
            v = u \<and> (\<forall>p n. nodes t p = Some n \<longrightarrow> nodes v p = Some n)"
    using filecase by (intro impI) (elim conjE)
  show ?thesis by (intro conjI) (rule 1, rule 2, rule keep, rule main_exit_code)
qed

lemma readonly_cwd_makedirs:
  "os_makedirs (os_path_join base_dir ''public/fonts'') readonly_cwd =
     (Some PermissionError, readonly_cwd)"
proof -
  have a: "makedirs [''public''] readonly_cwd = (Some PermissionError, readonly_cwd)"
    by (simp add: makedirs_base mkdir_def path_exists_def readonly_cwd_def)
  have ne: "[''public'', ''fonts''] \<noteq> []" by simp
  have nx: "\<not> path_exists (butlast [''public'', ''fonts'']) readonly_cwd"
    by (simp add: path_exists_def readonly_cwd_def)
  have a': "makedirs (butlast [''public'', ''fonts'']) readonly_cwd = (Some PermissionError, readonly_cwd)"
    using a by simp
  have "makedirs [''public'', ''fonts''] readonly_cwd = (Some PermissionError, readonly_cwd)"
    using makedirs_rec[OF ne nx a'] by simp
  then show ?thesis
    using dir_targets(1) by (simp add: os_makedirs_def dir_target_def)
qed

lemma small_disk_steps:
  "fst (walk (take 3 directories) small_disk) = None"
  "fst (create_entry (''app/api/export'', []) (fst (snd (walk (take 3 directories) small_disk)))) = None"
  "nodes (fst (snd (create_entry (''app/api/export'', [])
      (fst (snd (walk (take 3 directories) small_disk))))))
     (file_target ''app/api/export'' ''route.ts'') = None"
  "fst (open_w (os_path_join (os_path_join base_dir ''app/api/export'') ''route.ts'')
     (fst (snd (create_entry (''app/api/export'', [])
        (fst (snd (walk (take 3 directories) small_disk))))))) = Some NoSpaceError"
  by code_simp+

theorem error_ends_run_witness:
  "create_structure readonly_cwd = (Some PermissionError, readonly_cwd, []) \<and>
   main [''createProject.py''] readonly_cwd =
     \<lparr>exit_code = 1, final_fs = readonly_cwd, stdout = [], stderr = [PermissionError]\<rparr> \<and>
   fst (create_structure small_disk) = Some NoSpaceError \<and>
   exit_code (main [''createProject.py''] small_disk) = 1 \<and>
   stderr (main [''createProject.py''] small_disk) = [NoSpaceError]"
proof -
  have s1: "directories = [] @ (''public/fonts'', []) # tl directories"
    by (simp add: directories_def)
  have w1: "walk [] readonly_cwd = (None, readonly_cwd, [])" by simp
  have n1: "nodes readonly_cwd (dir_target ''public/fonts'') = None"
    by (simp add: readonly_cwd_def dir_targets)
  note t1 = error_ends_run [OF s1 w1, where e = PermissionError and u = readonly_cwd
      and argv = "[''createProject.py'']"]
  from conjunct1 [OF t1] n1 readonly_cwd_makedirs
  have a: "create_structure readonly_cwd = (Some PermissionError, readonly_cwd, []) \<and>
     main [''createProject.py''] readonly_cwd =
       \<lparr>exit_code = 1, final_fs = readonly_cwd, stdout = [], stderr = [PermissionError]\<rparr>"
    by simp
  let ?s1 = "fst (snd (walk (take 3 directories) small_disk))"
  let ?o1 = "snd (snd (walk (take 3 directories) small_disk))"
  let ?e = "create_entry (''app/api/export'', []) ?s1"
  let ?s2 = "fst (snd ?e)"
  let ?o2 = "snd (snd ?e)"
  let ?op = "open_w (os_path_join (os_path_join base_dir ''app/api/export'') ''route.ts'') ?s2"
  have s2: "directories = take 3 directories @ (''app/api/export'', [''route.ts'']) # drop 4 directories"
    by (simp add: directories_def)
  have w2: "walk (take 3 directories) small_disk = (None, ?s1, ?o1)"
    using small_disk_steps(1) by (metis prod.collapse)
  have f2: "[''route.ts''] = [] @ ''route.ts'' # []" by simp
  have e2: "?e = (None, ?s2, ?o2)" using small_disk_steps(2) by (metis prod.collapse)
  have o2: "?op = (Some NoSpaceError, snd ?op)" using small_disk_steps(4) by (metis prod.collapse)
  note t2 = error_ends_run [OF s2 w2, where argv = "[''createProject.py'']" and fbefore = "[]"
      and f = "''route.ts''" and fafter = "[]" and u = ?s2 and printed' = ?o2
      and e = NoSpaceError and v = "snd ?op"]
  from conjunct1 [OF conjunct2 [OF t2]] f2 e2 small_disk_steps(3) o2
  have b: "create_structure small_disk = (Some NoSpaceError, snd ?op, ?o1 @ ?o2) \<and>
      main [''createProject.py''] small_disk =
        \<lparr>exit_code = 1, final_fs = snd ?op, stdout = ?o1 @ ?o2, stderr = [NoSpaceError]\<rparr>"
    by blast
  show ?thesis using a b by simp
qed

lemma main_ok:
  "create_structure s = (None, s', out) \<Longrightarrow>
     main argv s = \<lparr>exit_code = 0, final_fs = s', stdout = out, stderr = []\<rparr>"
  by (simp add: main_def)

text \<open>
  Claim C5 as the script has it.  The process takes nothing from its command line: any
  arguments leave the result as it is without them.  The base directory is the constant
  \<^verbatim>\<open>"."\<close>, so every directory of the table is looked up under the working directory
  and every file under its directory there.
\<close>

theorem base_dir_is_working_directory:
  "main argv s = main [] s \<and> base_dir = ''.'' \<and>
   (\<forall>(d, files) \<in> set directories.
      os_path_join base_dir d = ''./'' @ d \<and> dir_target d = resolve d \<and>
      (\<forall>f \<in> set files. file_target d f = resolve d @ [f]))"
proof -
  have "\<forall>(d, files) \<in> set directories.
      os_path_join base_dir d = ''./'' @ d \<and> dir_target d = resolve d \<and>
      (\<forall>f \<in> set files. file_target d f = resolve d @ [f])"
    by (simp add: directories_def dir_targets file_targets os_path_join_def base_dir_def resolve_def)
  then show ?thesis by (simp add: main_def base_dir_def)
qed

theorem base_dir_is_working_directory_witness:
  "main [''createProject.py'', ''out''] empty_cwd = main [] empty_cwd \<and>
   os_path_join base_dir ''store/slices'' = ''./store/slices'' \<and>
   dir_target ''store/slices'' = resolve ''store/slices'' \<and>
   file_target ''store/slices'' ''uiSlice.ts'' = resolve ''store/slices'' @ [''uiSlice.ts'']"
proof -
  note t = base_dir_is_working_directory [of "[''createProject.py'', ''out'']" empty_cwd]
  have e: "(''store/slices'', [''timelineSlice.ts'', ''soundsSlice.ts'', ''uiSlice.ts''])
      \<in> set directories" by (simp add: directories_def)
  from bspec [OF conjunct2 [OF conjunct2 [OF t]] e] conjunct1 [OF t]
  show ?thesis by simp
qed

text \<open>
  The claim as the specification words it fails: a base directory given on the command
  line is not used.  Started with the argument \<^verbatim>\<open>out\<close> in an empty working
  directory, the process makes \<^verbatim>\<open>public/fonts\<close> in the working directory, and nothing
  named \<^verbatim>\<open>out\<close>.
\<close>

theorem base_dir_argument_counterexample:
  "exit_code (main [''createProject.py'', ''out''] empty_cwd) = 0 \<and>
   nodes (final_fs (main [''createProject.py'', ''out''] empty_cwd)) [''out''] = None \<and>
   nodes (final_fs (main [''createProject.py'', ''out''] empty_cwd)) [''public'', ''fonts''] =
     Some (Dir True)"
proof -
  have "nodes (fst (snd (walk directories empty_cwd))) [''public'', ''fonts''] = Some (Dir True)"
    using empty_cwd_facts(2) by (simp add: made_dirs_def)
  then show ?thesis
    using main_ok [OF create_structure_ok [OF empty_cwd_run]] empty_cwd_facts(1) by simp
qed

lemma tree_public_is_file: "tree public_is_file"
  unfolding public_is_file_def by (rule tree_map_of) auto

text \<open>
  Claim C6 as the script has it.  Let the script run in a directory tree and end without
  an exception.  Then walking the table with its items in any other order, and the files
  of each item in any other order, also ends without an exception and leaves the same
  filesystem state.  The lines printed follow the order walked: they are, item by item
  in that order, the line of the directory when its path was empty before the run and
  no item walked earlier has made it, and then the lines of the files of which the same
  holds, in the order of the item's list.  The same describes the lines of the script's
  own run.
\<close>

theorem rearranged_table_same_state:
  assumes "tree s" "create_structure s = (None, s', out)" "same_table directories entries'"
  shows "walk entries' s = (None, s', walked_lines s {} entries') \<and>
         subseq (walked_lines s {} entries') (all_lines entries') \<and>
         out = walked_lines s {} directories @ [''Successfully extended project structure.'']"
proof -
  from assms(2) obtain out1 where run: "walk directories s = (None, s', out1)"
    and out: "out = out1 @ [''Successfully extended project structure.'']"
    by (cases rule: create_structure_cases) auto
  obtain out' where w: "walk entries' s = (None, s', out')"
    using walk_rearranged[OF assms(1) no_clash_directories plain_names_directories run assms(3)]
    by blast
  have a: "out' = walked_lines s {} entries'"
    using walk_walked[OF assms(1) agrees_start w] .
  have b: "out1 = walked_lines s {} directories"
    using walk_walked[OF assms(1) agrees_start run] .
  show ?thesis using w a b out walked_lines_subseq by simp
qed

lemma same_table_reversed:
  "same_table entries (rev (map (\<lambda>(d, files). (d, rev files)) entries))"
  by (simp add: same_table_def rev_map comp_def case_prod_unfold)

lemma mset_rotate1: "mset (rotate1 xs) = mset xs"
  by (cases xs) simp_all

lemma mset_rotated: "mset (rotate n xs) = mset xs"
  by (induction n) (simp_all add: mset_rotate1)

lemma same_table_rotated: "same_table entries (rotate n entries)"
  unfolding same_table_def rotate_map [symmetric] by (rule mset_rotated)

theorem rearranged_table_same_state_witness:
  "walk (rev (map (\<lambda>(d, files). (d, rev files)) directories)) empty_cwd =
     (None, fst (snd (create_structure empty_cwd)),
      walked_lines empty_cwd {} (rev (map (\<lambda>(d, files). (d, rev files)) directories))) \<and>
   subseq (walked_lines empty_cwd {} (rev (map (\<lambda>(d, files). (d, rev files)) directories)))
     (all_lines (rev (map (\<lambda>(d, files). (d, rev files)) directories))) \<and>
   snd (snd (create_structure empty_cwd)) =
     walked_lines empty_cwd {} directories @ [''Successfully extended project structure.'']"
  using rearranged_table_same_state
      [OF tree_empty_cwd create_structure_ok [OF empty_cwd_run] same_table_reversed]
    create_structure_ok [OF empty_cwd_run] by (simp add: create_structure_state)

lemma public_is_file_walks:
  "fst (walk directories public_is_file) = Some NotADirectoryError"
  "nodes (fst (snd (walk directories public_is_file))) [''types''] = None"
  "fst (walk (rotate 13 directories) public_is_file) = Some NotADirectoryError"
  "nodes (fst (snd (walk (rotate 13 directories) public_is_file))) [''types''] = Some (Dir True)"
  by code_simp+

text \<open>
  The claim as the specification words it fails for a run that an exception ends: with
  a regular file at \<^verbatim>\<open>public\<close>, the table in its own order fails at its first item and
  makes nothing, while the table turned so that \<^verbatim>\<open>types\<close> comes first makes
  \<^verbatim>\<open>types\<close> before it fails.
\<close>

theorem rearranged_table_counterexample:
  "tree public_is_file \<and> same_table directories (rotate 13 directories) \<and>
   fst (walk directories public_is_file) = Some NotADirectoryError \<and>
   fst (walk (rotate 13 directories) public_is_file) = Some NotADirectoryError \<and>
   nodes (fst (snd (walk directories public_is_file))) [''types''] = None \<and>
   nodes (fst (snd (walk (rotate 13 directories) public_is_file))) [''types''] = Some (Dir True)"
  using tree_public_is_file same_table_rotated public_is_file_walks by simp

text \<open>
  Claim C8 as the script has it.  Every run, however it ends, prints exactly these lines:
  for each item of the table in order, one line for its directory when the run has made
  it (the path was empty before the run and is not after it), and then one line for each
  of its files that the run has made; after them the completion line when the run ends
  without an exception, and nothing more when an exception ends it.  A path that existed
  gives no line, and the directories above a table directory that \<^verbatim>\<open>os.makedirs\<close>
  makes on the way get no line.  For a run without an exception these are the lines of
  all table paths that did not exist before the run.
\<close>

theorem printed_lines:
  assumes "create_structure s = (r, s', out)"
  shows "out = made_lines s s' directories @
           (if r = None then [''Successfully extended project structure.''] else []) \<and>
         (r = None \<longrightarrow>
            out = expected_lines s directories @ [''Successfully extended project structure.''])"
  using assms
proof (cases rule: create_structure_cases)
  case (fail e)
  then show ?thesis using walk_made[OF fresh_directories fail(1)] by simp
next
  case (finish out1)
  then show ?thesis
    using walk_made[OF fresh_directories finish(1)] walk_log[OF fresh_directories finish(1)] by simp
qed

lemma small_disk_run:
  "fst (walk directories small_disk) = Some NoSpaceError"
  "snd (snd (walk directories small_disk)) =
     [''Created directory: public/fonts'', ''Created directory: public/icons'',
      ''Created directory: public/presets'', ''Created directory: app/api/export'']"
  by code_simp+

lemma create_structure_failed:
  "fst (walk directories s) = Some e \<Longrightarrow>
     create_structure s = (Some e, fst (snd (walk directories s)), snd (snd (walk directories s)))"
  by (cases "walk directories s") (simp add: create_structure_def)

theorem printed_lines_witness:
  "snd (snd (create_structure empty_cwd)) =
     expected_lines empty_cwd directories @ [''Successfully extended project structure.''] \<and>
   fst (create_structure small_disk) = Some NoSpaceError \<and>
   made_lines small_disk (fst (snd (create_structure small_disk))) directories =
     [''Created directory: public/fonts'', ''Created directory: public/icons'',
      ''Created directory: public/presets'', ''Created directory: app/api/export'']"
proof -
  note ok = create_structure_ok [OF empty_cwd_run]
  have a: "snd (snd (create_structure empty_cwd)) =
      expected_lines empty_cwd directories @ [''Successfully extended project structure.'']"
    using conjunct2 [OF printed_lines [OF ok]] by (simp add: ok)
  note fl = create_structure_failed [OF small_disk_run(1)]
  have "snd (snd (walk directories small_disk)) =
      made_lines small_disk (fst (snd (walk directories small_disk))) directories"
    using conjunct1 [OF printed_lines [OF fl]] by simp
  then have b: "made_lines small_disk (fst (snd (create_structure small_disk))) directories =
     [''Created directory: public/fonts'', ''Created directory: public/icons'',
      ''Created directory: public/presets'', ''Created directory: app/api/export'']"
    using small_disk_run(2) fl by simp
  show ?thesis using a b fl by simp
qed

text \<open>
  The claim as the specification words it fails: in an empty working directory the run
  makes twenty-one directories and prints sixteen directory lines.
\<close>

theorem directory_lines_counterexample:
  "fst (create_structure empty_cwd) = None \<and>
   length (filter is_directory_line (snd (snd (create_structure empty_cwd)))) = 16 \<and>
   length made_dirs = 21 \<and> distinct made_dirs \<and>
   list_all (\<lambda>p. nodes empty_cwd p = None \<and>
      nodes (fst (snd (create_structure empty_cwd))) p = Some (Dir True)) made_dirs"
proof -
  have "length made_dirs = 21 \<and> distinct made_dirs" by (simp add: made_dirs_def)
  then show ?thesis
    using create_structure_ok [OF empty_cwd_run] empty_cwd_facts(2,3) empty_cwd_run
    by (simp add: is_directory_line_def)
qed

section \<open>The table\<close>

text \<open>
  Claim C7.  The table holds exactly these directories, in this order, with these
  numbers of files; the two \<^verbatim>\<open>app/api\<close> directories hold one route file each and
  \<^verbatim>\<open>store\<close> holds the one file \<^verbatim>\<open>index.ts\<close>; no directory is listed twice.
\<close>

theorem directories_contents:
  "map (\<lambda>(directory, files). (directory, length files)) directories =
     [(''public/fonts'', 0), (''public/icons'', 0), (''public/presets'', 0),
      (''app/api/export'', 1), (''app/api/presets'', 1),
      (''components/ui'', 9), (''components/layout'', 3), (''components/audio'', 8),
      (''components/modals'', 3), (''components/controls'', 10),
      (''lib/audio'', 5), (''lib/hooks'', 4), (''lib/utils'', 3),
      (''types'', 3), (''store'', 1), (''store/slices'', 3)]
   \<and> map_of directories ''app/api/export'' = Some [''route.ts'']
   \<and> map_of directories ''app/api/presets'' = Some [''route.ts'']
   \<and> map_of directories ''store'' = Some [''index.ts'']
   \<and> distinct (map fst directories)"
  by (simp add: directories_def)

end
